theory Spec2Isabelle
  imports Main "HOL-Library.Sublist"
begin

section \<open>Text\<close>

text \<open>
  A Python \<open>str\<close> is a sequence of Unicode code points. The sanitizer looks at single
  characters (\<open>isprintable\<close>, \<open>strip\<close>, \<open>splitlines\<close>, the character classes of the
  regular expression), so a character is its code point, a natural number, and a string
  is a list of them. \<open>py\<close> turns a literal of the source into such a list.
\<close>

type_synonym pychar = nat
type_synonym pystr = "pychar list"

definition py :: "string \<Rightarrow> pystr" where
  "py s = map of_char s"

definition LF :: pychar where "LF = 0x0A"
definition CR :: pychar where "CR = 0x0D"
definition TAB :: pychar where "TAB = 0x09"
definition ESC :: pychar where "ESC = 0x1B"
definition SPACE :: pychar where "SPACE = 0x20"

section \<open>The output sanitizer (orchestrator.py, \<open>_sanitize_output\<close>)\<close>

subsection \<open>Python's character predicates\<close>

text \<open>
  \<open>str.isprintable\<close> is false on the Unicode categories Other and Separator, the ASCII
  space excepted. Up to U+00FF that is the C0 and C1 controls, DEL, the no-break space
  U+00A0 and the soft hyphen U+00AD. The table beyond U+00FF is not part of the
  repository: it is the parameter \<open>tbl\<close>, and every result below holds for any table.
\<close>

definition isprintable :: "(pychar \<Rightarrow> bool) \<Rightarrow> pychar \<Rightarrow> bool" where
  "isprintable tbl c =
     (if c < 0x100
      then (0x20 \<le> c \<and> c < 0x7F) \<or> (0xA1 \<le> c \<and> c \<noteq> 0xAD)
      else tbl c)"

text \<open>The characters \<open>str.strip()\<close> removes (Python's Unicode whitespace).\<close>

definition isspace :: "pychar \<Rightarrow> bool" where
  "isspace c =
     ((0x09 \<le> c \<and> c \<le> 0x0D) \<or> (0x1C \<le> c \<and> c \<le> 0x20) \<or> c = 0x85 \<or> c = 0xA0
      \<or> c = 0x1680 \<or> (0x2000 \<le> c \<and> c \<le> 0x200A) \<or> c = 0x2028 \<or> c = 0x2029
      \<or> c = 0x202F \<or> c = 0x205F \<or> c = 0x3000)"

text \<open>The line boundaries of \<open>str.splitlines()\<close>.\<close>

definition islinebreak :: "pychar \<Rightarrow> bool" where
  "islinebreak c =
     ((0x0A \<le> c \<and> c \<le> 0x0D) \<or> (0x1C \<le> c \<and> c \<le> 0x1E) \<or> c = 0x85
      \<or> c = 0x2028 \<or> c = 0x2029)"

subsection \<open>The steps\<close>

text \<open>\<open>text.replace("\r", "\n")\<close>\<close>

definition replace_cr :: "pystr \<Rightarrow> pystr" where
  "replace_cr text = map (\<lambda>c. if c = CR then LF else c) text"

text \<open>
  \<open>ANSI_ESCAPE_RE = \x1B\[[0-?]*[ -/]*[@-~]|\x1B[@-_]\<close>. The three classes of the first
  alternative are disjoint ranges, so its two greedy stars never give a character back:
  the match is decided by skipping the parameter bytes, then the intermediate bytes, and
  looking at the next character. A match attempt returns the text after the match.
\<close>

definition is_param :: "pychar \<Rightarrow> bool" where
  "is_param c = (0x30 \<le> c \<and> c \<le> 0x3F)"

definition is_inter :: "pychar \<Rightarrow> bool" where
  "is_inter c = (0x20 \<le> c \<and> c \<le> 0x2F)"

definition is_final :: "pychar \<Rightarrow> bool" where
  "is_final c = (0x40 \<le> c \<and> c \<le> 0x7E)"

definition is_esc2 :: "pychar \<Rightarrow> bool" where
  "is_esc2 c = (0x40 \<le> c \<and> c \<le> 0x5F)"

fun match_csi :: "pystr \<Rightarrow> pystr option" where
  "match_csi (e # b # cs) =
     (if e = ESC \<and> b = 0x5B
      then (case dropWhile is_inter (dropWhile is_param cs) of
              [] \<Rightarrow> None
            | f # rest \<Rightarrow> if is_final f then Some rest else None)
      else None)"
| "match_csi _ = None"

fun match_esc2 :: "pystr \<Rightarrow> pystr option" where
  "match_esc2 (e # c # cs) = (if e = ESC \<and> is_esc2 c then Some cs else None)"
| "match_esc2 _ = None"

definition match_ansi :: "pystr \<Rightarrow> pystr option" where
  "match_ansi s = (case match_csi s of Some rest \<Rightarrow> Some rest | None \<Rightarrow> match_esc2 s)"

lemma match_csi_shorter: "match_csi s = Some rest \<Longrightarrow> length rest < length s"
proof (induction s rule: match_csi.induct)
  case (1 e b cs)
  have le: "length (dropWhile is_inter (dropWhile is_param cs)) \<le> length cs"
    by (meson length_dropWhile_le le_trans)
  from 1 show ?case
    using le by (auto split: if_splits list.splits)
qed simp_all

lemma match_esc2_shorter: "match_esc2 s = Some rest \<Longrightarrow> length rest < length s"
  by (induction s rule: match_esc2.induct) (auto split: if_splits)

lemma match_ansi_shorter: "match_ansi s = Some rest \<Longrightarrow> length rest < length s"
  by (auto simp: match_ansi_def split: option.splits
           dest: match_csi_shorter match_esc2_shorter)

text \<open>
  \<open>ANSI_ESCAPE_RE.sub("", text)\<close>: scan from the left; where the pattern matches, drop
  the match and go on behind it; elsewhere keep the character.
\<close>

function ansi_sub :: "pystr \<Rightarrow> pystr" where
  "ansi_sub [] = []"
| "ansi_sub (c # cs) =
     (case match_ansi (c # cs) of
        Some rest \<Rightarrow> ansi_sub rest
      | None \<Rightarrow> c # ansi_sub cs)"
  by pat_completeness auto
termination
  by (relation "measure length") (auto dest: match_ansi_shorter)

text \<open>\<open>"".join(ch for ch in cleaned if ch.isprintable() or ch in "\n\t")\<close>\<close>

definition keep_char :: "(pychar \<Rightarrow> bool) \<Rightarrow> pychar \<Rightarrow> bool" where
  "keep_char tbl ch = (isprintable tbl ch \<or> ch \<in> set [LF, TAB])"

definition drop_unprintable :: "(pychar \<Rightarrow> bool) \<Rightarrow> pystr \<Rightarrow> pystr" where
  "drop_unprintable tbl cleaned = filter (keep_char tbl) cleaned"

text \<open>
  \<open>str.splitlines()\<close>: the text is cut at every line boundary, \<open>\r\n\<close> counting as one;
  the boundaries are not part of the lines, and a boundary at the very end opens no
  further line. \<open>cur\<close> is the line read so far.
\<close>

fun splitlines_from :: "pystr \<Rightarrow> pystr \<Rightarrow> pystr list" where
  "splitlines_from cur [] = (if cur = [] then [] else [cur])"
| "splitlines_from cur [c] =
     (if islinebreak c then [cur] else [cur @ [c]])"
| "splitlines_from cur (c # d # cs) =
     (if islinebreak c
      then cur # (if c = CR \<and> d = LF then splitlines_from [] cs
                  else splitlines_from [] (d # cs))
      else splitlines_from (cur @ [c]) (d # cs))"

definition splitlines :: "pystr \<Rightarrow> pystr list" where
  "splitlines s = splitlines_from [] s"

text \<open>\<open>str.strip()\<close> with no argument.\<close>

definition strip :: "pystr \<Rightarrow> pystr" where
  "strip s = rev (dropWhile isspace (rev (dropWhile isspace s)))"

text \<open>\<open>line if line.strip() else " "\<close>\<close>

definition blank_to_space :: "pystr \<Rightarrow> pystr" where
  "blank_to_space line = (if strip line \<noteq> [] then line else [SPACE])"

text \<open>
  The method itself. Its last statement, \<open>[line for line in lines if line is not None]\<close>,
  keeps every line: no element of \<open>lines\<close> is \<open>None\<close>.
\<close>

definition sanitize_output :: "(pychar \<Rightarrow> bool) \<Rightarrow> pystr \<Rightarrow> pystr list" where
  "sanitize_output tbl text =
     (let cleaned = replace_cr text;
          cleaned = ansi_sub cleaned;
          cleaned = drop_unprintable tbl cleaned;
          lines = map blank_to_space (splitlines cleaned)
      in filter (\<lambda>line. True) lines)"

subsection \<open>The steps in the words of the specification\<close>

text \<open>
  For comparison with \<open>sanitize_output\<close>, the five steps as the specification words them.
  Step 2 strips the sequences "ESC [ parameter-bytes intermediate-bytes final-byte" and
  the two-byte "ESC letter" forms; step 5 replaces an empty line with a single space.
  Steps 1, 3 and 4 are the ones of the code.
\<close>

definition is_letter :: "pychar \<Rightarrow> bool" where
  "is_letter c = ((0x41 \<le> c \<and> c \<le> 0x5A) \<or> (0x61 \<le> c \<and> c \<le> 0x7A))"

fun spec_match_esc_letter :: "pystr \<Rightarrow> pystr option" where
  "spec_match_esc_letter (e # c # cs) = (if e = ESC \<and> is_letter c then Some cs else None)"
| "spec_match_esc_letter _ = None"

definition spec_match_escape :: "pystr \<Rightarrow> pystr option" where
  "spec_match_escape s =
     (case match_csi s of Some rest \<Rightarrow> Some rest | None \<Rightarrow> spec_match_esc_letter s)"

lemma spec_match_escape_shorter:
  "spec_match_escape s = Some rest \<Longrightarrow> length rest < length s"
proof -
  have "spec_match_esc_letter s = Some rest \<Longrightarrow> length rest < length s"
    by (induction s rule: spec_match_esc_letter.induct) (auto split: if_splits)
  then show "spec_match_escape s = Some rest \<Longrightarrow> length rest < length s"
    by (auto simp: spec_match_escape_def split: option.splits dest: match_csi_shorter)
qed

function spec_strip_escapes :: "pystr \<Rightarrow> pystr" where
  "spec_strip_escapes [] = []"
| "spec_strip_escapes (c # cs) =
     (case spec_match_escape (c # cs) of
        Some rest \<Rightarrow> spec_strip_escapes rest
      | None \<Rightarrow> c # spec_strip_escapes cs)"
  by pat_completeness auto
termination
  by (relation "measure length") (auto dest: spec_match_escape_shorter)

definition spec_empty_to_space :: "pystr \<Rightarrow> pystr" where
  "spec_empty_to_space line = (if line = [] then [SPACE] else line)"

definition spec_sanitize_output :: "(pychar \<Rightarrow> bool) \<Rightarrow> pystr \<Rightarrow> pystr list" where
  "spec_sanitize_output tbl text =
     map spec_empty_to_space
       (splitlines (drop_unprintable tbl (spec_strip_escapes (replace_cr text))))"

section \<open>Agent sessions (orchestrator.py, class \<open>AgentProcess\<close>)\<close>

subsection \<open>The state\<close>

text \<open>
  A call into the operating system or the Python library either succeeds or raises an
  exception; which of the two is the environment's choice, passed to the model as an
  argument. \<open>Raises e\<close> is an exception whose text (\<open>str(e)\<close>) is \<open>e\<close>. A method returns
  \<open>Inl e\<close> when the exception \<open>e\<close> leaves it, and \<open>Inr\<close> of its result and the new state
  otherwise.
\<close>

datatype io = Success | Raises pystr

text \<open>
  Opening a file and writing to it has three outcomes: \<open>open\<close> raises and the file
  system is as before; \<open>open\<close> succeeds, which creates the file when it did not exist (and
  empties it in mode \<open>"w"\<close>), and the write raises after \<open>n\<close> characters have reached the
  file; or all is written.
\<close>

datatype file_io = Written | OpenRaises pystr | WriteRaises pystr nat

text \<open>
  The file object \<open>process.stdin\<close> of a child started with \<open>stdin=subprocess.PIPE\<close>:
  whether it has been closed, and what the child has been sent through it.
\<close>

record pipe_file =
  closed :: bool
  delivered :: pystr

datatype proc_status = Alive | Exited | Killed

text \<open>
  A \<open>subprocess.Popen\<close> object. \<open>stdin\<close> is \<open>None\<close> when the child was not given a pipe
  (the pseudo-terminal case, where it gets the slave descriptor). \<open>status\<close> is \<open>Exited\<close> once
  the child has ended, and \<open>Killed\<close> when SIGKILL has been sent and the end is not known
  yet. \<open>may_signal\<close> says whether the operating system lets the orchestrator signal the
  child; it does not for a child that runs under another user (\<open>os.kill\<close> gives EPERM).
\<close>

record popen =
  stdin :: "pipe_file option"
  status :: proc_status
  may_signal :: bool

text \<open>
  The fields of \<open>AgentProcess\<close>. The reader thread is not part of the model: what it
  does to the session is call \<open>_enqueue_output\<close>, which is.
\<close>

record agent_process =
  name :: pystr
  command :: pystr
  args :: "pystr list"
  workspace :: pystr
  use_pty :: bool
  process :: "popen option"
  output_buffer :: "pystr list"
  running :: bool
  output_queue :: "pystr list"
  master_fd :: "int option"

text \<open>
  What the session touches outside the Python object: the descriptors open in the
  orchestrator's process, the writes made with \<open>os.write\<close> (descriptor and text, in
  order), and the side log \<open>workspace / "<name>.log"\<close> (\<open>None\<close> while the file does not
  exist).
\<close>

record os_state =
  open_fds :: "int set"
  pty_writes :: "(int \<times> pystr) list"
  side_log :: "pystr option"

definition init :: "pystr \<Rightarrow> pystr \<Rightarrow> pystr list \<Rightarrow> pystr \<Rightarrow> bool \<Rightarrow> agent_process" where
  "init nm cmd as ws pty =
     \<lparr>name = nm, command = cmd, args = as, workspace = ws, use_pty = pty,
      process = None, output_buffer = [], running = False, output_queue = [],
      master_fd = None\<rparr>"

subsection \<open>Library calls\<close>

text \<open>\<open>os.close(fd)\<close>, \<open>os.write(fd, data)\<close>: a descriptor that is not open gives EBADF.\<close>

definition os_close :: "int \<Rightarrow> os_state \<Rightarrow> pystr + os_state" where
  "os_close fd os =
     (if fd \<in> open_fds os then Inr (os\<lparr>open_fds := open_fds os - {fd}\<rparr>)
      else Inl (py ''[Errno 9] Bad file descriptor''))"

definition os_write :: "io \<Rightarrow> int \<Rightarrow> pystr \<Rightarrow> os_state \<Rightarrow> pystr + os_state" where
  "os_write r fd data os =
     (if fd \<notin> open_fds os then Inl (py ''[Errno 9] Bad file descriptor'')
      else case r of
             Raises e \<Rightarrow> Inl e
           | Success \<Rightarrow> Inr (os\<lparr>pty_writes := pty_writes os @ [(fd, data)]\<rparr>))"

text \<open>
  \<open>f.write(data)\<close>, \<open>f.flush()\<close> and \<open>f.close()\<close> on the stdin pipe. Python refuses to
  write to or flush a closed file object with a \<open>ValueError\<close>, before the operating
  system is asked; on an open one the write can still fail (the child has gone, the text
  cannot be encoded). Closing marks the object closed.
\<close>

definition closed_file_error :: pystr where
  "closed_file_error = py ''I/O operation on closed file.''"

definition file_write :: "io \<Rightarrow> pystr \<Rightarrow> pipe_file \<Rightarrow> pystr + pipe_file" where
  "file_write r data f =
     (if closed f then Inl closed_file_error
      else case r of
             Raises e \<Rightarrow> Inl e
           | Success \<Rightarrow> Inr (f\<lparr>delivered := delivered f @ data\<rparr>))"

definition file_flush :: "io \<Rightarrow> pipe_file \<Rightarrow> pystr + pipe_file" where
  "file_flush r f =
     (if closed f then Inl closed_file_error
      else case r of Raises e \<Rightarrow> Inl e | Success \<Rightarrow> Inr f)"

definition file_close :: "pipe_file \<Rightarrow> pipe_file" where
  "file_close f = f\<lparr>closed := True\<rparr>"

text \<open>
  \<open>with open(path, "a") as f: f.write(data)\<close>: the file is created when it does not
  exist, and the data goes behind what it holds. The result is the outcome and the file
  as it is then, also when an exception comes. (On the POSIX systems the orchestrator
  runs on, writing in text mode stores the characters as they are.)
\<close>

definition file_content :: "pystr option \<Rightarrow> pystr" where
  "file_content f = (case f of None \<Rightarrow> [] | Some c \<Rightarrow> c)"

definition append_to_file :: "file_io \<Rightarrow> pystr \<Rightarrow> pystr option \<Rightarrow> io \<times> pystr option" where
  "append_to_file r data f =
     (case r of
        OpenRaises e \<Rightarrow> (Raises e, f)
      | WriteRaises e n \<Rightarrow> (Raises e, Some (file_content f @ take n data))
      | Written \<Rightarrow> (Success, Some (file_content f @ data)))"

text \<open>\<open>list.pop(0)\<close>\<close>

definition pop0 :: "'a list \<Rightarrow> pystr + ('a \<times> 'a list)" where
  "pop0 xs = (case xs of [] \<Rightarrow> Inl (py ''pop from empty list'') | x # rest \<Rightarrow> Inr (x, rest))"

text \<open>
  \<open>process.terminate(); process.wait(timeout=5)\<close> as one step, and \<open>process.kill()\<close>.
  Both signals go through \<open>Popen.send_signal\<close>: it does nothing for a child that has
  ended, suppresses \<open>ProcessLookupError\<close>, and lets the \<open>PermissionError\<close> of \<open>os.kill\<close>
  through. Where the signal can be sent, the environment decides whether the child ends
  within the five seconds or an exception (\<open>TimeoutExpired\<close>) comes. \<open>kill()\<close> does not
  wait.
\<close>

definition permission_error :: pystr where
  "permission_error = py ''[Errno 1] Operation not permitted''"

definition terminate_wait :: "io \<Rightarrow> popen \<Rightarrow> pystr + popen" where
  "terminate_wait r p =
     (if status p = Exited then Inr p
      else if \<not> may_signal p then Inl permission_error
      else case r of Raises e \<Rightarrow> Inl e | Success \<Rightarrow> Inr (p\<lparr>status := Exited\<rparr>))"

definition kill :: "popen \<Rightarrow> pystr + popen" where
  "kill p =
     (if status p = Exited then Inr p
      else if \<not> may_signal p then Inl permission_error
      else Inr (p\<lparr>status := Killed\<rparr>))"

subsection \<open>The methods\<close>

text \<open>The two \<open>append\<close> lines of the handlers in \<open>start\<close> and \<open>send_input\<close>.\<close>

definition record_error :: "pystr \<Rightarrow> agent_process \<Rightarrow> agent_process" where
  "record_error msg self =
     (let self = self\<lparr>output_buffer := output_buffer self @ [msg]\<rparr>
      in self\<lparr>output_queue := output_queue self @ [msg]\<rparr>)"

text \<open>
  \<open>start\<close>. \<open>openpty\<close> is the result of \<open>pty.openpty()\<close> (master and slave descriptor),
  \<open>spawn\<close> that of \<open>subprocess.Popen(...)\<close>, and \<open>child_may_signal\<close> whether the program
  started is one the orchestrator may signal.
\<close>

record start_env =
  openpty :: "pystr + (int \<times> int)"
  spawn :: io
  child_may_signal :: bool

definition start_failed :: "pystr \<Rightarrow> os_state \<Rightarrow> agent_process
    \<Rightarrow> pystr + (bool \<times> os_state \<times> agent_process)" where
  "start_failed e os self =
     Inr (False, os, record_error (py ''Error starting '' @ name self @ py '': '' @ e @ [LF]) self)"

definition start :: "start_env \<Rightarrow> os_state \<times> agent_process
    \<Rightarrow> pystr + (bool \<times> os_state \<times> agent_process)" where
  "start env w =
     (let (os, self) = w in
      if use_pty self then
        (case openpty env of
           Inl e \<Rightarrow> start_failed e os self
         | Inr (master, slave) \<Rightarrow>
             let os = os\<lparr>open_fds := open_fds os \<union> {master, slave}\<rparr>;
                 self = self\<lparr>master_fd := Some master\<rparr>
             in (case spawn env of
                   Raises e \<Rightarrow> start_failed e os self
                 | Success \<Rightarrow>
                     let self = self\<lparr>process :=
                           Some \<lparr>stdin = None, status = Alive,
                                 may_signal = child_may_signal env\<rparr>\<rparr>
                     in (case os_close slave os of
                           Inl e \<Rightarrow> start_failed e os self
                         | Inr os \<Rightarrow> Inr (True, os, self\<lparr>running := True\<rparr>))))
      else
        (case spawn env of
           Raises e \<Rightarrow> start_failed e os self
         | Success \<Rightarrow>
             let self = self\<lparr>process :=
                   Some \<lparr>stdin = Some \<lparr>closed = False, delivered = []\<rparr>, status = Alive,
                         may_signal = child_may_signal env\<rparr>\<rparr>
             in Inr (True, os, self\<lparr>running := True\<rparr>)))"

text \<open>
  \<open>_enqueue_output\<close>. \<open>log_io\<close> is the outcome of opening the side log and writing to it.
  The handler swallows the exception; the side log stays as the attempt left it.
\<close>

definition enqueue_output :: "file_io \<Rightarrow> pystr \<Rightarrow> os_state \<times> agent_process
    \<Rightarrow> pystr + (os_state \<times> agent_process)" where
  "enqueue_output log_io text w =
     (let (os, self) = w;
          self = self\<lparr>output_queue := output_queue self @ [text]\<rparr>;
          self = self\<lparr>output_buffer := output_buffer self @ [text]\<rparr>
      in case append_to_file log_io text (side_log os) of
           (Success, f) \<Rightarrow> Inr (os\<lparr>side_log := f\<rparr>, self)
         | (Raises e, f) \<Rightarrow> Inr (os\<lparr>side_log := f\<rparr>, self))"

text \<open>
  \<open>send_input\<close>. In the pseudo-terminal branch the text is written to the master
  descriptor and the method returns; \<open>close\<close> is not looked at. In the pipe branch the
  three calls of the \<open>try\<close> block run in turn, and the first exception ends the block
  with the effects made so far.
\<close>

record send_env =
  write_io :: io
  flush_io :: io

definition set_stdin :: "pipe_file \<Rightarrow> popen \<Rightarrow> agent_process \<Rightarrow> agent_process" where
  "set_stdin f p self = self\<lparr>process := Some (p\<lparr>stdin := Some f\<rparr>)\<rparr>"

definition send_input :: "send_env \<Rightarrow> pystr \<Rightarrow> bool \<Rightarrow> os_state \<times> agent_process
    \<Rightarrow> pystr + (os_state \<times> agent_process)" where
  "send_input env text close w =
     (let (os, self) = w in
      case (if use_pty self then master_fd self else None) of
        Some fd \<Rightarrow>
          (case os_write (write_io env) fd (text @ [LF]) os of
             Inr os \<Rightarrow> Inr (os, self)
           | Inl e \<Rightarrow>
               Inr (os, record_error (py ''Error sending input (pty): '' @ e @ [LF]) self))
      | None \<Rightarrow>
          (case process self of
             None \<Rightarrow> Inr (os, self)
           | Some p \<Rightarrow>
               (case stdin p of
                  None \<Rightarrow> Inr (os, self)
                | Some f \<Rightarrow>
                    (case file_write (write_io env) (text @ [LF]) f of
                       Inl e \<Rightarrow>
                         Inr (os, record_error (py ''Error sending input: '' @ e @ [LF]) self)
                     | Inr f \<Rightarrow>
                         (case file_flush (flush_io env) f of
                            Inl e \<Rightarrow>
                              Inr (os, record_error (py ''Error sending input: '' @ e @ [LF])
                                         (set_stdin f p self))
                          | Inr f \<Rightarrow>
                              Inr (os, set_stdin (if close then file_close f else f) p self))))))"

text \<open>\<open>read_output\<close>\<close>

definition read_output :: "agent_process \<Rightarrow> pystr + (pystr \<times> agent_process)" where
  "read_output self =
     (if output_queue self \<noteq> [] then
        (case pop0 (output_queue self) of
           Inl e \<Rightarrow> Inl e
         | Inr (chunk, rest) \<Rightarrow> Inr (chunk, self\<lparr>output_queue := rest\<rparr>))
      else Inr ([], self))"

text \<open>
  \<open>stop\<close>. \<open>term_io\<close> is the outcome of \<open>terminate()\<close> and \<open>wait(timeout=5)\<close> where the
  child can be signalled. The handler calls \<open>kill()\<close>, and an exception of \<open>kill()\<close> leaves
  the method: the result is the outcome together with the state at that moment. The
  second \<open>try\<close> swallows whatever \<open>os.close\<close> raises.
\<close>

definition close_master :: "os_state \<times> agent_process \<Rightarrow> os_state \<times> agent_process" where
  "close_master w =
     (let (os, self) = w in
      case master_fd self of
        None \<Rightarrow> (os, self)
      | Some fd \<Rightarrow>
          let os = (case os_close fd os of Inr os \<Rightarrow> os | Inl e \<Rightarrow> os)
          in (os, self\<lparr>master_fd := None\<rparr>))"

definition stop :: "io \<Rightarrow> os_state \<times> agent_process \<Rightarrow> io \<times> os_state \<times> agent_process" where
  "stop term_io w =
     (let (os, self) = w in
      case process self of
        None \<Rightarrow> (Success, close_master (os, self))
      | Some p \<Rightarrow>
          let self = self\<lparr>running := False\<rparr>
          in (case terminate_wait term_io p of
                Inr p \<Rightarrow> (Success, close_master (os, self\<lparr>process := Some p\<rparr>))
              | Inl e \<Rightarrow>
                  (case kill p of
                     Inl e \<Rightarrow> (Raises e, os, self)
                   | Inr p \<Rightarrow> (Success, close_master (os, self\<lparr>process := Some p\<rparr>)))))"

section \<open>The coordination file\<close>

text \<open>
  The two files of the workspace, each with its content, or \<open>None\<close> while it does not
  exist. The orchestrator reaches them as \<open>self.chat_file\<close> and \<open>self.plan_file\<close>, a mock
  agent as \<open>CHAT.md\<close> and \<open>PLAN_FINAL.md\<close> in its working directory, which is the
  workspace.
\<close>

record files =
  chat_file :: "pystr option"
  plan_file :: "pystr option"

text \<open>
  \<open>path.write_text(data)\<close>: the file is created or truncated by the \<open>open\<close>, then written.
  The result is the outcome and the file as it is then.
\<close>

definition write_text :: "file_io \<Rightarrow> pystr \<Rightarrow> pystr option \<Rightarrow> io \<times> pystr option" where
  "write_text r data f =
     (case r of
        OpenRaises e \<Rightarrow> (Raises e, f)
      | WriteRaises e n \<Rightarrow> (Raises e, Some (take n data))
      | Written \<Rightarrow> (Success, Some data))"

text \<open>
  \<open>path.read_text()\<close> reads in text mode with universal newlines: \<open>\r\n\<close> and a single
  \<open>\r\<close> both come back as \<open>\n\<close>.
\<close>

fun universal_newlines :: "pystr \<Rightarrow> pystr" where
  "universal_newlines [] = []"
| "universal_newlines [c] = [if c = CR then LF else c]"
| "universal_newlines (c # d # cs) =
     (if c = CR \<and> d = LF then LF # universal_newlines cs
      else if c = CR then LF # universal_newlines (d # cs)
      else c # universal_newlines (d # cs))"

definition read_text :: "pystr \<Rightarrow> pystr" where
  "read_text content = universal_newlines content"

subsection \<open>mock\_agent.py, class \<open>MockAgent\<close>\<close>

text \<open>
  The fields of \<open>MockAgent\<close> but the two paths and the table of personalities. The field
  \<open>name\<close> of the source is \<open>agent_name\<close> here.
\<close>

record mock_agent =
  agent_name :: pystr
  last_chat_content :: pystr
  message_count :: nat
  has_proposed_plan :: bool

definition mock_agent_init :: "pystr \<Rightarrow> mock_agent" where
  "mock_agent_init nm =
     \<lparr>agent_name = nm, last_chat_content = [], message_count = 0, has_proposed_plan = False\<rparr>"

text \<open>\<open>read_chat\<close>\<close>

definition read_chat :: "files \<Rightarrow> pystr" where
  "read_chat fs = (case chat_file fs of None \<Rightarrow> [] | Some content \<Rightarrow> read_text content)"

text \<open>The text \<open>f"\n[{self.name}]: {message}\n"\<close>.\<close>

definition chat_line :: "pystr \<Rightarrow> pystr \<Rightarrow> pystr" where
  "chat_line speaker message = [LF] @ py ''['' @ speaker @ py '']: '' @ message @ [LF]"

text \<open>
  \<open>append_to_chat\<close>. An exception of \<open>open\<close> or \<open>write\<close> leaves the method, with the file
  as the attempt left it; the line the method prints to its standard output afterwards
  is not modelled.
\<close>

definition append_to_chat :: "file_io \<Rightarrow> mock_agent \<Rightarrow> pystr \<Rightarrow> files \<Rightarrow> io \<times> files" where
  "append_to_chat wr self message fs =
     (case append_to_file wr (chat_line (agent_name self) message) (chat_file fs) of
        (outcome, f) \<Rightarrow> (outcome, fs\<lparr>chat_file := f\<rparr>))"

subsection \<open>orchestrator.py, class \<open>MultiAgentOrchestrator\<close>\<close>

text \<open>
  Of the application, the two widgets the chat methods use: the value of the message
  input and the text the chat viewer shows. Either is \<open>None\<close> while the widget is not
  mounted, and \<open>query_one\<close> raises then.
\<close>

record app_state =
  user_message_input :: "pystr option"
  chat_viewer :: "pystr option"

text \<open>
  \<open>setup_workspace\<close>. It has no handler: the first exception leaves it, with the files
  as they are at that moment, so the result is the outcome together with the files.
\<close>

record setup_env =
  mkdir_io :: io
  chat_io :: file_io
  plan_io :: file_io

definition setup_workspace :: "setup_env \<Rightarrow> files \<Rightarrow> io \<times> files" where
  "setup_workspace env fs =
     (case mkdir_io env of
        Raises e \<Rightarrow> (Raises e, fs)
      | Success \<Rightarrow>
          (case write_text (chat_io env) [] (chat_file fs) of
             (Raises e, c) \<Rightarrow> (Raises e, fs\<lparr>chat_file := c\<rparr>)
           | (Success, c) \<Rightarrow>
               let fs = fs\<lparr>chat_file := c\<rparr>
               in (case write_text (plan_io env) [] (plan_file fs) of
                     (outcome, p) \<Rightarrow> (outcome, fs\<lparr>plan_file := p\<rparr>))))"

text \<open>\<open>on_chat_modified\<close>: the viewer is handed what \<open>read_text()\<close> returns.\<close>

definition on_chat_modified :: "files \<Rightarrow> app_state \<Rightarrow> app_state" where
  "on_chat_modified fs app =
     (case chat_file fs of
        None \<Rightarrow> app
      | Some content \<Rightarrow>
          (case chat_viewer app of
             None \<Rightarrow> app
           | Some shown \<Rightarrow> app\<lparr>chat_viewer := Some (read_text content)\<rparr>))"

text \<open>
  \<open>send_user_message\<close>. \<open>timestamp\<close> is \<open>datetime.now().strftime("%H:%M:%S")\<close> and \<open>wr\<close>
  the outcome of opening the chat file for appending and writing to it. The handler
  around the whole body swallows every exception.
\<close>

definition user_line :: "pystr \<Rightarrow> pystr \<Rightarrow> pystr" where
  "user_line timestamp message =
     [LF] @ py ''[User @ '' @ timestamp @ py '']: '' @ message @ [LF]"

definition send_user_message :: "pystr \<Rightarrow> file_io \<Rightarrow> files \<times> app_state
    \<Rightarrow> pystr + (files \<times> app_state)" where
  "send_user_message timestamp wr w =
     (let (fs, app) = w in
      case user_message_input app of
        None \<Rightarrow> Inr (fs, app)
      | Some v \<Rightarrow>
          let message = strip v in
          if message = [] then Inr (fs, app)
          else
            (case append_to_file wr (user_line timestamp message) (chat_file fs) of
               (Raises e, f) \<Rightarrow> Inr (fs\<lparr>chat_file := f\<rparr>, app)
             | (Success, f) \<Rightarrow>
                 let fs = fs\<lparr>chat_file := f\<rparr>;
                     app = app\<lparr>user_message_input := Some []\<rparr>
                 in Inr (fs, on_chat_modified fs app)))"

section \<open>Sequences of calls\<close>

text \<open>
  The reader calling \<open>_enqueue_output\<close> for one chunk after the other, each with the
  outcome of its side-log write.
\<close>

fun enqueue_all :: "(file_io \<times> pystr) list \<Rightarrow> os_state \<times> agent_process
    \<Rightarrow> pystr + (os_state \<times> agent_process)" where
  "enqueue_all [] w = Inr w"
| "enqueue_all ((log_io, text) # rest) w =
     (case enqueue_output log_io text w of
        Inl e \<Rightarrow> Inl e
      | Inr w \<Rightarrow> enqueue_all rest w)"

text \<open>\<open>n\<close> consecutive calls of \<open>read_output\<close>, and what they return.\<close>

fun read_outputs :: "nat \<Rightarrow> agent_process \<Rightarrow> pystr + (pystr list \<times> agent_process)" where
  "read_outputs 0 self = Inr ([], self)"
| "read_outputs (Suc n) self =
     (case read_output self of
        Inl e \<Rightarrow> Inl e
      | Inr (chunk, self) \<Rightarrow>
          (case read_outputs n self of
             Inl e \<Rightarrow> Inl e
           | Inr (chunks, self) \<Rightarrow> Inr (chunk # chunks, self)))"

text \<open>Consecutive calls of \<open>send_input\<close>, each with its environment and arguments.\<close>

fun send_inputs :: "(send_env \<times> pystr \<times> bool) list \<Rightarrow> os_state \<times> agent_process
    \<Rightarrow> pystr + (os_state \<times> agent_process)" where
  "send_inputs [] w = Inr w"
| "send_inputs ((env, text, close) # rest) w =
     (case send_input env text close w of
        Inl e \<Rightarrow> Inl e
      | Inr w \<Rightarrow> send_inputs rest w)"

text \<open>The record a failed pipe write leaves in the buffer and the queue.\<close>

definition send_error :: "pystr \<Rightarrow> pystr" where
  "send_error e = py ''Error sending input: '' @ e @ [LF]"

text \<open>
  The writes to the coordination file after \<open>setup_workspace\<close>: the user submits what was
  typed into the message input, or a mock agent posts a message. Whether or not the
  call raises, the file is as the call left it.
\<close>

datatype chat_write =
  UserMessage pystr pystr file_io
| AgentAppend file_io mock_agent pystr

fun later_write :: "chat_write \<Rightarrow> files \<times> app_state \<Rightarrow> files \<times> app_state" where
  "later_write (UserMessage typed timestamp wr) (fs, app) =
     (case send_user_message timestamp wr
             (fs, app\<lparr>user_message_input := map_option (\<lambda>v. typed) (user_message_input app)\<rparr>) of
        Inl e \<Rightarrow> (fs, app)
      | Inr w \<Rightarrow> w)"
| "later_write (AgentAppend wr agent message) (fs, app) =
     (case append_to_chat wr agent message fs of
        (outcome, fs) \<Rightarrow> (fs, app))"

fun later_writes :: "chat_write list \<Rightarrow> files \<times> app_state \<Rightarrow> files \<times> app_state" where
  "later_writes [] w = w"
| "later_writes (x # xs) w = later_writes xs (later_write x w)"

section \<open>Concrete inputs\<close>

text \<open>
  The chunk \<open>"\x1B[31mred\x1B[0m\r\n\x07"\<close>: a colour sequence, a word, the reset sequence,
  a carriage return and line feed, and BEL.
\<close>

text \<open>A table in which no character beyond U+00FF is printable.\<close>

definition latin1_only :: "pychar \<Rightarrow> bool" where
  "latin1_only c = False"

definition coloured_chunk :: pystr where
  "coloured_chunk = [ESC] @ py ''[31mred'' @ [ESC] @ py ''[0m'' @ [CR, LF, 0x07]"

text \<open>An operating system with the standard descriptors open and no side log yet.\<close>

definition os0 :: os_state where
  "os0 = \<lparr>open_fds = {0, 1, 2}, pty_writes = [], side_log = None\<rparr>"

text \<open>
  A pipe session and a pseudo-terminal session after a successful \<open>start()\<close>; the
  pseudo-terminal pair is the descriptors 3 and 4.
\<close>

definition pipe_agent :: agent_process where
  "pipe_agent = init (py ''codex'') (py ''codex'') [] (py ''workspace'') False"

definition pty_agent :: agent_process where
  "pty_agent = init (py ''claude'') (py ''claude'') [] (py ''workspace'') True"

definition started_ok :: start_env where
  "started_ok = \<lparr>openpty = Inr (3, 4), spawn = Success, child_may_signal = True\<rparr>"

definition pipe_child :: popen where
  "pipe_child =
     \<lparr>stdin = Some \<lparr>closed = False, delivered = []\<rparr>, status = Alive, may_signal = True\<rparr>"

definition pipe_started :: agent_process where
  "pipe_started = pipe_agent\<lparr>process := Some pipe_child, running := True\<rparr>"

definition pty_os :: os_state where
  "pty_os = os0\<lparr>open_fds := {0, 1, 2, 3}\<rparr>"

definition pty_child :: popen where
  "pty_child = \<lparr>stdin = None, status = Alive, may_signal = True\<rparr>"

definition pty_started :: agent_process where
  "pty_started = pty_agent\<lparr>
     process := Some pty_child,
     running := True,
     master_fd := Some 3\<rparr>"

definition all_ok :: send_env where
  "all_ok = \<lparr>write_io = Success, flush_io = Success\<rparr>"

definition broken_pipe :: send_env where
  "broken_pipe = \<lparr>write_io = Raises (py ''[Errno 32] Broken pipe''), flush_io = Success\<rparr>"

text \<open>The record of a failed pipe write with a broken pipe, and the session holding it.\<close>

definition pipe_after_broken_pipe :: agent_process where
  "pipe_after_broken_pipe =
     record_error (send_error (py ''[Errno 32] Broken pipe'')) pipe_started"

definition files0 :: files where
  "files0 = \<lparr>chat_file = Some (py ''left over''), plan_file = None\<rparr>"

definition app0 :: app_state where
  "app0 = \<lparr>user_message_input = Some [], chat_viewer = Some []\<rparr>"

definition setup_ok :: setup_env where
  "setup_ok = \<lparr>mkdir_io = Success, chat_io = Written, plan_io = Written\<rparr>"

subsection \<open>What the returned lines contain\<close>

lemmas sanitize_defs =
  sanitize_output_def replace_cr_def py_def CR_def LF_def ESC_def TAB_def SPACE_def
  match_ansi_def is_param_def is_inter_def is_final_def is_esc2_def
  drop_unprintable_def keep_char_def isprintable_def
  splitlines_def islinebreak_def blank_to_space_def strip_def isspace_def

lemma splitlines_from_chars:
  "line \<in> set (splitlines_from cur s) \<Longrightarrow> c \<in> set line \<Longrightarrow>
     c \<in> set cur \<or> (c \<in> set s \<and> \<not> islinebreak c)"
  by (induction cur s rule: splitlines_from.induct) (auto split: if_splits)

lemma splitlines_chars:
  "line \<in> set (splitlines s) \<Longrightarrow> c \<in> set line \<Longrightarrow> c \<in> set s \<and> \<not> islinebreak c"
  using splitlines_from_chars [of line "[]" s c] by (simp add: splitlines_def)

lemma drop_unprintable_chars:
  "c \<in> set (drop_unprintable tbl s) \<Longrightarrow> keep_char tbl c"
  by (simp add: drop_unprintable_def)

lemma keep_char_line:
  "keep_char tbl c \<Longrightarrow> \<not> islinebreak c \<Longrightarrow> c \<noteq> ESC \<and> (isprintable tbl c \<or> c = TAB)"
  by (auto simp: keep_char_def islinebreak_def isprintable_def ESC_def LF_def TAB_def)

lemma space_line: "SPACE \<noteq> ESC \<and> isprintable tbl SPACE"
  by (simp add: SPACE_def ESC_def isprintable_def)

lemma sanitize_output_eq:
  "sanitize_output tbl text =
     map blank_to_space (splitlines (drop_unprintable tbl (ansi_sub (replace_cr text))))"
  by (simp add: sanitize_output_def)

lemma strip_empty_iff: "strip s = [] \<longleftrightarrow> list_all isspace s"
proof
  assume "strip s = []"
  then have "\<forall>c \<in> set (dropWhile isspace s). isspace c"
    by (simp add: strip_def dropWhile_eq_Nil_conv)
  then have "dropWhile isspace s = []"
    by (metis hd_dropWhile list.set_sel(1))
  then show "list_all isspace s"
    by (simp add: dropWhile_eq_Nil_conv list_all_iff)
next
  assume "list_all isspace s"
  then have "dropWhile isspace s = []"
    by (simp add: dropWhile_eq_Nil_conv list_all_iff)
  then show "strip s = []"
    by (simp only: strip_def rev.simps dropWhile.simps)
qed

lemma blank_to_space_cases:
  "blank_to_space line = (if list_all isspace line then [SPACE] else line)"
  by (simp add: blank_to_space_def strip_empty_iff)

lemma blank_to_space_nonempty: "blank_to_space line \<noteq> []"
  by (auto simp: blank_to_space_def strip_def)

lemma sanitize_coloured_chunk:
  "sanitize_output (\<lambda>c. False) coloured_chunk = [[0x72, 0x65, 0x64], [0x20]]"
  by (simp add: coloured_chunk_def sanitize_defs)

text \<open>
  C1. Whatever the input text (and whatever the Unicode table beyond U+00FF), no line
  returned by \<open>_sanitize_output\<close> contains ESC, and every character of every returned line
  is printable or is the horizontal tab. The input may hold ANSI escape sequences or any
  other characters.
\<close>

theorem sanitize_output_printable:
  "\<forall>line \<in> set (sanitize_output tbl text). \<forall>c \<in> set line.
     c \<noteq> ESC \<and> (isprintable tbl c \<or> c = TAB)"
proof (intro ballI)
  fix line c
  assume line: "line \<in> set (sanitize_output tbl text)" and c: "c \<in> set line"
  let ?cleaned = "drop_unprintable tbl (ansi_sub (replace_cr text))"
  from line obtain raw where raw: "raw \<in> set (splitlines ?cleaned)"
    and line_eq: "line = blank_to_space raw"
    by (auto simp: sanitize_output_eq)
  show "c \<noteq> ESC \<and> (isprintable tbl c \<or> c = TAB)"
  proof (cases "strip raw \<noteq> []")
    case True
    with line_eq c have "c \<in> set raw" by (simp add: blank_to_space_def)
    with raw have "c \<in> set ?cleaned" and "\<not> islinebreak c"
      using splitlines_chars by blast+
    then show ?thesis
      using drop_unprintable_chars keep_char_line by blast
  next
    case False
    with line_eq c have "c = SPACE" by (simp add: blank_to_space_def)
    then show ?thesis using space_line by simp
  qed
qed

theorem sanitize_output_printable_witness:
  "[0x72, 0x65, 0x64] \<in> set (sanitize_output (\<lambda>c. False) coloured_chunk)
   \<and> ESC \<in> set coloured_chunk
   \<and> list_all (\<lambda>c. c \<noteq> ESC \<and> (isprintable (\<lambda>c. False) c \<or> c = TAB)) [0x72, 0x65, 0x64]"
proof -
  have mem: "[0x72, 0x65, 0x64] \<in> set (sanitize_output (\<lambda>c. False) coloured_chunk)"
    by (simp add: sanitize_coloured_chunk)
  have esc: "ESC \<in> set coloured_chunk"
    by (simp add: coloured_chunk_def)
  from sanitize_output_printable [of "\<lambda>c. False" coloured_chunk] mem
  have "\<forall>c \<in> set [0x72, 0x65, 0x64]. c \<noteq> ESC \<and> (isprintable (\<lambda>c. False) c \<or> c = TAB)"
    by blast
  with mem esc show ?thesis
    by (simp only: list_all_iff simp_thms)
qed

subsection \<open>What each step does\<close>

lemma replace_cr_pointwise:
  "length (replace_cr text) = length text
   \<and> (\<forall>i < length text. replace_cr text ! i = (if text ! i = CR then LF else text ! i))"
  by (simp add: replace_cr_def)

lemma dropWhile_csi_body:
  assumes "list_all is_param ps" and "list_all is_inter ims" and "is_final f"
  shows "dropWhile is_inter (dropWhile is_param (ps @ ims @ f # rest)) = f # rest"
proof -
  have nf: "\<not> is_param f" "\<not> is_inter f"
    using assms(3) by (auto simp: is_param_def is_inter_def is_final_def)
  have ni: "\<forall>c \<in> set ims. \<not> is_param c"
    using assms(2) by (auto simp: list_all_iff is_param_def is_inter_def)
  have "dropWhile is_param (ps @ ims @ f # rest) = dropWhile is_param (ims @ f # rest)"
    using assms(1) by (simp add: list_all_iff dropWhile_append)
  also have "\<dots> = ims @ f # rest"
    using ni nf by (cases ims) simp_all
  finally have "dropWhile is_inter (dropWhile is_param (ps @ ims @ f # rest))
      = dropWhile is_inter (ims @ f # rest)" by simp
  also have "\<dots> = f # rest"
    using assms(2) nf by (simp add: list_all_iff dropWhile_append)
  finally show ?thesis .
qed

lemma match_csi_sequence:
  assumes "list_all is_param ps" and "list_all is_inter ims" and "is_final f"
  shows "match_csi ([ESC, 0x5B] @ ps @ ims @ [f] @ rest) = Some rest"
  using dropWhile_csi_body [OF assms, of rest] assms(3) by simp

lemma match_csi_Some_shape:
  assumes "match_csi s = Some rest"
  shows "\<exists>ps ims f. s = [ESC, 0x5B] @ ps @ ims @ [f] @ rest
     \<and> list_all is_param ps \<and> list_all is_inter ims \<and> is_final f"
proof (cases s rule: match_csi.cases)
  case (1 e b cs)
  let ?ps = "takeWhile is_param cs"
  let ?r1 = "dropWhile is_param cs"
  let ?ims = "takeWhile is_inter ?r1"
  from assms 1 have eb: "e = ESC" "b = 0x5B"
    by (auto split: if_splits)
  from assms 1 eb obtain f where f: "dropWhile is_inter ?r1 = f # rest" "is_final f"
    by (auto split: list.splits if_splits)
  have "cs = ?ps @ ?r1" by simp
  also have "?r1 = ?ims @ dropWhile is_inter ?r1" by simp
  finally have "cs = ?ps @ ?ims @ f # rest" using f(1) by simp
  moreover have "list_all is_param ?ps" "list_all is_inter ?ims"
    by (auto simp: list_all_iff dest: set_takeWhileD)
  ultimately show ?thesis using 1 eb f(2) by auto
qed (use assms in simp_all)

lemma ansi_sub_plain: "c \<noteq> ESC \<Longrightarrow> ansi_sub (c # rest) = c # ansi_sub rest"
  by (cases rest) (simp_all add: match_ansi_def)

lemma ansi_sub_csi:
  assumes "list_all is_param ps" and "list_all is_inter ims" and "is_final f"
  shows "ansi_sub ([ESC, 0x5B] @ ps @ ims @ [f] @ rest) = ansi_sub rest"
proof -
  have "match_ansi ([ESC, 0x5B] @ ps @ ims @ [f] @ rest) = Some rest"
    using match_csi_sequence [OF assms, of rest] by (simp add: match_ansi_def)
  then show ?thesis by simp
qed

lemma ansi_sub_esc2:
  assumes "is_esc2 c" and "c \<noteq> 0x5B"
  shows "ansi_sub (ESC # c # rest) = ansi_sub rest"
  using assms by (simp add: match_ansi_def)

lemma ansi_sub_esc_bracket:
  assumes "\<not> (\<exists>ps ims f rest'. rest = ps @ ims @ [f] @ rest'
      \<and> list_all is_param ps \<and> list_all is_inter ims \<and> is_final f)"
  shows "ansi_sub (ESC # 0x5B # rest) = ansi_sub rest"
proof -
  have "match_csi (ESC # 0x5B # rest) = None"
  proof (rule ccontr)
    assume "match_csi (ESC # 0x5B # rest) \<noteq> None"
    then obtain r where "match_csi (ESC # 0x5B # rest) = Some r" by auto
    from match_csi_Some_shape [OF this] assms show False by auto
  qed
  then have "match_ansi (ESC # 0x5B # rest) = Some rest"
    by (simp add: match_ansi_def is_esc2_def)
  then show ?thesis by simp
qed

lemma ansi_sub_esc_other:
  assumes "\<not> is_esc2 c"
  shows "ansi_sub (ESC # c # rest) = ESC # ansi_sub (c # rest)"
proof -
  from assms have "c \<noteq> 0x5B" by (auto simp: is_esc2_def)
  with assms have "match_ansi (ESC # c # rest) = None"
    by (simp add: match_ansi_def)
  then show ?thesis by simp
qed

lemma ansi_sub_esc_last: "ansi_sub [ESC] = [ESC]"
  by (simp add: match_ansi_def)

lemma drop_unprintable_filter:
  "drop_unprintable tbl s = filter (\<lambda>c. isprintable tbl c \<or> c = LF \<or> c = TAB) s"
  unfolding drop_unprintable_def by (rule filter_cong) (simp_all add: keep_char_def)

lemma splitlines_from_char:
  "\<not> islinebreak c \<Longrightarrow> splitlines_from cur (c # s) = splitlines_from (cur @ [c]) s"
  by (cases s) simp_all

lemma splitlines_from_LF: "splitlines_from cur (LF # s) = cur # splitlines_from [] s"
  by (cases s) (simp_all add: islinebreak_def LF_def CR_def)

lemma splitlines_from_line:
  "\<forall>c \<in> set l. \<not> islinebreak c \<Longrightarrow>
     splitlines_from cur (l @ s) = splitlines_from (cur @ l) s"
  by (induction l arbitrary: cur) (simp_all add: splitlines_from_char)

lemma splitlines_from_lines:
  assumes "\<forall>l \<in> set ls. \<forall>c \<in> set l. \<not> islinebreak c"
    and "\<forall>c \<in> set tail. \<not> islinebreak c"
  shows "splitlines_from [] (concat (map (\<lambda>l. l @ [LF]) ls) @ tail)
     = ls @ (if tail = [] then [] else [tail])"
  using assms(1)
proof (induction ls)
  case Nil
  have "splitlines_from [] (tail @ []) = splitlines_from ([] @ tail) []"
    using assms(2) by (rule splitlines_from_line)
  then show ?case by simp
next
  case (Cons l ls)
  have "splitlines_from [] (l @ LF # (concat (map (\<lambda>l. l @ [LF]) ls) @ tail))
      = splitlines_from ([] @ l) (LF # (concat (map (\<lambda>l. l @ [LF]) ls) @ tail))"
    using Cons.prems by (intro splitlines_from_line) simp
  also have "\<dots> = l # splitlines_from [] (concat (map (\<lambda>l. l @ [LF]) ls) @ tail)"
    by (simp add: splitlines_from_LF)
  finally show ?case using Cons by simp
qed


text \<open>
  C9. \<open>_sanitize_output\<close> is the composition of its steps in this order, and the steps
  do the following. (1) Every carriage return becomes a line feed and nothing else
  changes. (2) Scanning from the left, a sequence ESC \<open>[\<close>, parameter bytes,
  intermediate bytes, final byte is removed, and so are ESC and the character behind it
  when that character lies in \<open>@\<close> .. \<open>_\<close> (for \<open>[\<close>: when no such sequence starts there);
  an ESC in front of any other character, a lower-case letter or a digit for one, and
  an ESC at the end stay, as does every character that is not ESC. (3) The characters
  that are printable, line feed or tab are kept, the others dropped. (4) A text whose
  only line boundaries are line feeds is split at them, and a line feed at the very end
  opens no further line. (5) A line that is empty or holds whitespace only becomes a
  single space, every other line stays. Hence no returned line is the empty string.
\<close>

theorem sanitize_output_steps:
  "sanitize_output tbl input =
     map blank_to_space (splitlines (drop_unprintable tbl (ansi_sub (replace_cr input))))
   \<and> length (replace_cr input) = length input
   \<and> (\<forall>i < length input. replace_cr input ! i = (if input ! i = CR then LF else input ! i))
   \<and> ansi_sub [] = []
   \<and> ansi_sub [ESC] = [ESC]
   \<and> (c \<noteq> ESC \<longrightarrow> ansi_sub (c # rest) = c # ansi_sub rest)
   \<and> (list_all is_param ps \<and> list_all is_inter ims \<and> is_final f \<longrightarrow>
        ansi_sub ([ESC, 0x5B] @ ps @ ims @ [f] @ rest) = ansi_sub rest)
   \<and> (is_esc2 c \<and> c \<noteq> 0x5B \<longrightarrow> ansi_sub (ESC # c # rest) = ansi_sub rest)
   \<and> (\<not> (\<exists>ps ims f rest'. rest = ps @ ims @ [f] @ rest'
             \<and> list_all is_param ps \<and> list_all is_inter ims \<and> is_final f) \<longrightarrow>
        ansi_sub (ESC # 0x5B # rest) = ansi_sub rest)
   \<and> (\<not> is_esc2 c \<longrightarrow> ansi_sub (ESC # c # rest) = ESC # ansi_sub (c # rest))
   \<and> drop_unprintable tbl s = filter (\<lambda>c. isprintable tbl c \<or> c = LF \<or> c = TAB) s
   \<and> ((\<forall>l \<in> set ls. \<forall>c \<in> set l. \<not> islinebreak c) \<and> (\<forall>c \<in> set tail. \<not> islinebreak c) \<longrightarrow>
        splitlines (concat (map (\<lambda>l. l @ [LF]) ls) @ tail)
          = ls @ (if tail = [] then [] else [tail]))
   \<and> blank_to_space line = (if list_all isspace line then [SPACE] else line)
   \<and> [] \<notin> set (sanitize_output tbl input)"
proof (intro conjI impI)
  show "sanitize_output tbl input =
     map blank_to_space (splitlines (drop_unprintable tbl (ansi_sub (replace_cr input))))"
    by (rule sanitize_output_eq)
  show "length (replace_cr input) = length input"
    using replace_cr_pointwise by blast
  show "\<forall>i < length input. replace_cr input ! i = (if input ! i = CR then LF else input ! i)"
    using replace_cr_pointwise by blast
  show "ansi_sub [] = []" by simp
  show "ansi_sub [ESC] = [ESC]" by (rule ansi_sub_esc_last)
  show "ansi_sub (c # rest) = c # ansi_sub rest" if "c \<noteq> ESC"
    using that by (rule ansi_sub_plain)
  show "ansi_sub ([ESC, 0x5B] @ ps @ ims @ [f] @ rest) = ansi_sub rest"
    if "list_all is_param ps \<and> list_all is_inter ims \<and> is_final f"
    using that ansi_sub_csi by blast
  show "ansi_sub (ESC # c # rest) = ansi_sub rest" if "is_esc2 c \<and> c \<noteq> 0x5B"
    using that ansi_sub_esc2 by blast
  show "ansi_sub (ESC # 0x5B # rest) = ansi_sub rest"
    if "\<not> (\<exists>ps ims f rest'. rest = ps @ ims @ [f] @ rest'
             \<and> list_all is_param ps \<and> list_all is_inter ims \<and> is_final f)"
    using that by (rule ansi_sub_esc_bracket)
  show "ansi_sub (ESC # c # rest) = ESC # ansi_sub (c # rest)" if "\<not> is_esc2 c"
    using that by (rule ansi_sub_esc_other)
  show "drop_unprintable tbl s = filter (\<lambda>c. isprintable tbl c \<or> c = LF \<or> c = TAB) s"
    by (rule drop_unprintable_filter)
  show "splitlines (concat (map (\<lambda>l. l @ [LF]) ls) @ tail)
          = ls @ (if tail = [] then [] else [tail])"
    if "(\<forall>l \<in> set ls. \<forall>c \<in> set l. \<not> islinebreak c) \<and> (\<forall>c \<in> set tail. \<not> islinebreak c)"
    using that splitlines_from_lines [of ls tail] by (simp add: splitlines_def)
  show "blank_to_space line = (if list_all isspace line then [SPACE] else line)"
    by (rule blank_to_space_cases)
  show "[] \<notin> set (sanitize_output tbl input)"
  proof
    assume "[] \<in> set (sanitize_output tbl input)"
    then obtain raw where "[] = blank_to_space raw"
      by (auto simp: sanitize_output_eq)
    then show False
      using blank_to_space_nonempty [of raw] by simp
  qed
qed

theorem sanitize_output_steps_witness:
  "sanitize_output latin1_only coloured_chunk = [[0x72, 0x65, 0x64], [SPACE]]
   \<and> ansi_sub ([ESC, 0x5B] @ [0x33, 0x31] @ [] @ [0x6D] @ [0x72, 0x65, 0x64]) = [0x72, 0x65, 0x64]
   \<and> ansi_sub (ESC # 0x5D # [0x72, 0x65, 0x64]) = [0x72, 0x65, 0x64]
   \<and> splitlines (concat (map (\<lambda>l. l @ [LF]) [[0x72, 0x65, 0x64], []]) @ [])
       = [[0x72, 0x65, 0x64], []]
   \<and> [] \<notin> set (sanitize_output latin1_only coloured_chunk)"
proof -
  note steps = sanitize_output_steps
    [where tbl = latin1_only and input = coloured_chunk and c = "0x5D"
       and rest = "[0x72, 0x65, 0x64]" and ps = "[0x33, 0x31]" and ims = "[]" and f = "0x6D"
       and ls = "[[0x72, 0x65, 0x64], []]" and tail = "[]" and line = "[]" and s = "[]"]
  have red: "ansi_sub [0x72, 0x65, 0x64] = [0x72, 0x65, 0x64]"
    by (simp add: match_ansi_def ESC_def)
  have csi: "list_all is_param [0x33, 0x31] \<and> list_all is_inter [] \<and> is_final 0x6D"
    by (simp add: is_param_def is_final_def)
  have esc2: "is_esc2 0x5D \<and> (0x5D :: nat) \<noteq> 0x5B"
    by (simp add: is_esc2_def)
  have lines: "(\<forall>l \<in> set [[0x72, 0x65, 0x64], []]. \<forall>c \<in> set l. \<not> islinebreak c)
      \<and> (\<forall>c \<in> set []. \<not> islinebreak c)"
    by (simp add: islinebreak_def)
  have split: "splitlines (drop_unprintable latin1_only (ansi_sub (replace_cr coloured_chunk)))
       = [[0x72, 0x65, 0x64], []]"
    by (simp add: coloured_chunk_def sanitize_defs latin1_only_def)
  have keep: "blank_to_space [0x72, 0x65, 0x64] = [0x72, 0x65, 0x64]"
    by (simp add: blank_to_space_def strip_def isspace_def)
  from steps have out: "sanitize_output latin1_only coloured_chunk
          = map blank_to_space [[0x72, 0x65, 0x64], []]"
    unfolding split by blast
  from steps have blank: "blank_to_space [] = [SPACE]" by simp
  from steps csi have a: "ansi_sub ([ESC, 0x5B] @ [0x33, 0x31] @ [] @ [0x6D] @ [0x72, 0x65, 0x64])
      = ansi_sub [0x72, 0x65, 0x64]" by blast
  from steps esc2 have b: "ansi_sub (ESC # 0x5D # [0x72, 0x65, 0x64]) = ansi_sub [0x72, 0x65, 0x64]"
    by blast
  from steps lines have c: "splitlines (concat (map (\<lambda>l. l @ [LF]) [[0x72, 0x65, 0x64], []]) @ [])
       = [[0x72, 0x65, 0x64], []] @ (if [] = ([] :: pystr) then [] else [[]])" by blast
  from steps have d: "[] \<notin> set (sanitize_output latin1_only coloured_chunk)" by blast
  from out blank keep a b c d red show ?thesis by simp
qed

text \<open>
  Two inputs on which the code and the steps as the specification words them part: the
  reset sequence ESC \<open>c\<close>, whose letter the code keeps, and a line of two spaces, which the
  code turns into one.
\<close>

theorem sanitize_output_steps_counterexample:
  "ansi_sub [ESC, 0x63] = [ESC, 0x63]
   \<and> sanitize_output latin1_only [ESC, 0x63] = [[0x63]]
   \<and> spec_sanitize_output latin1_only [ESC, 0x63] = []
   \<and> sanitize_output latin1_only [SPACE, SPACE] = [[SPACE]]
   \<and> spec_sanitize_output latin1_only [SPACE, SPACE] = [[SPACE, SPACE]]"
  by (simp add: sanitize_defs latin1_only_def spec_sanitize_output_def
                spec_match_escape_def is_letter_def spec_empty_to_space_def)

section \<open>Properties of the sessions\<close>

subsection \<open>The concrete sessions are what \<open>start\<close> returns\<close>

lemma start_pipe_agent: "start started_ok (os0, pipe_agent) = Inr (True, os0, pipe_started)"
  by (simp add: start_def started_ok_def pipe_agent_def pipe_started_def pipe_child_def
                init_def)

lemma start_pty_agent: "start started_ok (os0, pty_agent) = Inr (True, pty_os, pty_started)"
  by (auto simp: start_def started_ok_def pty_agent_def pty_started_def pty_child_def
                 pty_os_def os0_def init_def os_close_def)

subsection \<open>Capturing output\<close>

lemma enqueue_output_result:
  "\<exists>os'. enqueue_output log_io text (os, self)
     = Inr (os', self\<lparr>output_queue := output_queue self @ [text],
                      output_buffer := output_buffer self @ [text]\<rparr>)"
  by (cases log_io) (simp_all add: enqueue_output_def append_to_file_def)

lemma enqueue_all_queue:
  "\<exists>os' self'. enqueue_all chunks (os, self) = Inr (os', self')
     \<and> output_queue self' = output_queue self @ map snd chunks"
proof (induction chunks arbitrary: os self)
  case Nil
  show ?case by simp
next
  case (Cons ch chunks)
  obtain log_io t where ch: "ch = (log_io, t)" by (cases ch)
  let ?self1 = "self\<lparr>output_queue := output_queue self @ [t],
                      output_buffer := output_buffer self @ [t]\<rparr>"
  from enqueue_output_result [of log_io t os self]
  obtain os1 where step: "enqueue_output log_io t (os, self) = Inr (os1, ?self1)"
    by blast
  from Cons.IH [of os1 ?self1]
  show ?case by (auto simp: ch step)
qed

lemma read_output_nonempty:
  "output_queue self = chunk # rest \<Longrightarrow>
     read_output self = Inr (chunk, self\<lparr>output_queue := rest\<rparr>)"
  by (simp add: read_output_def pop0_def)

lemma read_output_empty:
  "output_queue self = [] \<Longrightarrow> read_output self = Inr ([], self)"
  by (simp add: read_output_def)

lemma read_output_returns: "\<exists>chunk self'. read_output self = Inr (chunk, self')"
  by (cases "output_queue self") (simp_all add: read_output_nonempty read_output_empty)

lemma read_outputs_drain:
  "output_queue self = q \<Longrightarrow>
     read_outputs (Suc (length q)) self = Inr (q @ [[]], self\<lparr>output_queue := []\<rparr>)"
proof (induction q arbitrary: self)
  case Nil
  then show ?case by (simp add: read_output_empty)
next
  case (Cons chunk q)
  from Cons.prems have "read_output self = Inr (chunk, self\<lparr>output_queue := q\<rparr>)"
    by (rule read_output_nonempty)
  moreover have "read_outputs (Suc (length q)) (self\<lparr>output_queue := q\<rparr>)
      = Inr (q @ [[]], self\<lparr>output_queue := []\<rparr>)"
    using Cons.IH [of "self\<lparr>output_queue := q\<rparr>"] by simp
  ultimately show ?case by simp
qed

text \<open>
  C2. When the reader has enqueued the chunks of a list, in order, consecutive calls of
  \<open>read_output\<close> return what was in the queue before, then those chunks in the order of
  the list, then the empty string; with an empty queue at the beginning, the chunks
  \<open>a\<close>, \<open>b\<close>, \<open>c\<close> come back as \<open>a\<close>, \<open>b\<close>, \<open>c\<close> and the fourth call gives the empty
  string. In every state \<open>read_output\<close> returns: it has no loop and no wait, and the
  \<open>pop\<close> behind its test cannot raise.
\<close>

theorem read_output_fifo:
  "(\<exists>os' self1 self2.
      enqueue_all chunks (os, self) = Inr (os', self1)
      \<and> read_outputs (Suc (length (output_queue self) + length chunks)) self1
          = Inr (output_queue self @ map snd chunks @ [[]], self2))
   \<and> (\<exists>chunk self'. read_output s = Inr (chunk, self'))"
proof
  from enqueue_all_queue [of chunks os self]
  obtain os' self1 where all: "enqueue_all chunks (os, self) = Inr (os', self1)"
    and q: "output_queue self1 = output_queue self @ map snd chunks"
    by blast
  from read_outputs_drain [OF q]
  have "read_outputs (Suc (length (output_queue self) + length chunks)) self1
          = Inr (output_queue self @ map snd chunks @ [[]], self1\<lparr>output_queue := []\<rparr>)"
    by simp
  with all show "\<exists>os' self1 self2.
      enqueue_all chunks (os, self) = Inr (os', self1)
      \<and> read_outputs (Suc (length (output_queue self) + length chunks)) self1
          = Inr (output_queue self @ map snd chunks @ [[]], self2)"
    by blast
  show "\<exists>chunk self'. read_output s = Inr (chunk, self')"
    by (rule read_output_returns)
qed

theorem read_output_fifo_witness:
  "output_queue pipe_started = []
   \<and> (\<exists>os' self1 self2.
        enqueue_all [(Written, py ''a''), (WriteRaises (py ''disk full'') 0, py ''b''),
                     (Written, py ''c'')] (os0, pipe_started) = Inr (os', self1)
        \<and> read_outputs (Suc (Suc (Suc (Suc 0)))) self1
            = Inr ([py ''a'', py ''b'', py ''c'', []], self2))"
proof -
  have empty: "output_queue pipe_started = []"
    by (simp add: pipe_started_def pipe_agent_def init_def)
  from read_output_fifo [of "[(Written, py ''a''), (WriteRaises (py ''disk full'') 0, py ''b''),
                     (Written, py ''c'')]" os0 pipe_started pipe_started]
  show ?thesis
    by (simp add: empty)
qed

text \<open>
  C8. Whatever happens to the side log (it cannot be opened, the write raises after
  any part of the chunk, or all is written), \<open>_enqueue_output\<close> returns normally and has
  appended the chunk to the queue and to the buffer, and nothing else of the session has
  changed.
\<close>

theorem enqueue_output_side_log:
  "\<exists>os'. enqueue_output log_io text (os, self)
     = Inr (os', self\<lparr>output_queue := output_queue self @ [text],
                      output_buffer := output_buffer self @ [text]\<rparr>)"
proof (cases log_io)
  case Written
  then show ?thesis
    by (simp add: enqueue_output_def append_to_file_def)
next
  case (OpenRaises e)
  then show ?thesis
    by (simp add: enqueue_output_def append_to_file_def)
next
  case (WriteRaises e n)
  then show ?thesis
    by (simp add: enqueue_output_def append_to_file_def)
qed

theorem enqueue_output_side_log_witness:
  "\<exists>os'. enqueue_output (WriteRaises (py ''[Errno 28] No space left on device'') 0)
       (py ''line'') (os0, pipe_started)
     = Inr (os', pipe_started\<lparr>output_queue := [py ''line''],
                              output_buffer := [py ''line'']\<rparr>)"
  using enqueue_output_side_log
    [of "WriteRaises (py ''[Errno 28] No space left on device'') 0" "py ''line''" os0 pipe_started]
  by (simp add: pipe_started_def pipe_agent_def init_def)

subsection \<open>Sending input\<close>

lemma record_error_fields:
  "master_fd (record_error msg self) = master_fd self"
  "use_pty (record_error msg self) = use_pty self"
  "process (record_error msg self) = process self"
  "running (record_error msg self) = running self"
  "output_queue (record_error msg self) = output_queue self @ [msg]"
  "output_buffer (record_error msg self) = output_buffer self @ [msg]"
  by (simp_all add: record_error_def)

lemma send_input_pty:
  assumes "use_pty self" and "master_fd self = Some fd"
  shows "\<exists>os' self'. send_input env text close (os, self) = Inr (os', self')
     \<and> use_pty self' \<and> master_fd self' = Some fd \<and> process self' = process self
     \<and> open_fds os' = open_fds os"
  using assms
  by (cases "write_io env")
     (auto simp: send_input_def os_write_def record_error_fields)

text \<open>
  C3. In a session in pseudo-terminal mode whose master descriptor is open, any sequence
  of \<open>send_input\<close> calls, with any texts, any values of \<open>close\<close> and any outcomes of
  the writes, returns normally and leaves the session with the same master descriptor,
  still open; the set of open descriptors is unchanged.
\<close>

theorem send_input_pty_never_closes:
  assumes "use_pty self" and "master_fd self = Some fd" and "fd \<in> open_fds os"
  shows "\<exists>os' self'. send_inputs calls (os, self) = Inr (os', self')
     \<and> master_fd self' = Some fd \<and> fd \<in> open_fds os' \<and> open_fds os' = open_fds os
     \<and> process self' = process self"
  using assms
proof (induction calls arbitrary: os self)
  case Nil
  then show ?case by simp
next
  case (Cons call calls)
  obtain env t close where call: "call = (env, t, close)" by (cases call)
  from send_input_pty [OF Cons.prems(1,2), of env t close os]
  obtain os1 self1 where step: "send_input env t close (os, self) = Inr (os1, self1)"
    and inv: "use_pty self1" "master_fd self1 = Some fd" "process self1 = process self"
      "open_fds os1 = open_fds os"
    by blast
  from Cons.IH [of self1 os1] inv Cons.prems(3)
  show ?case by (auto simp: call step)
qed

theorem send_input_pty_never_closes_witness:
  "use_pty pty_started \<and> master_fd pty_started = Some 3 \<and> 3 \<in> open_fds pty_os
   \<and> (\<exists>os' self'.
        send_inputs [(all_ok, py ''prompt'', True), (broken_pipe, py ''more'', True),
                     (all_ok, py ''last'', False)] (pty_os, pty_started) = Inr (os', self')
        \<and> master_fd self' = Some 3 \<and> 3 \<in> open_fds os')"
proof -
  have h1: "use_pty pty_started"
    by (simp add: pty_started_def pty_agent_def init_def)
  have h2: "master_fd pty_started = Some 3"
    by (simp add: pty_started_def)
  have h3: "3 \<in> open_fds pty_os"
    by (simp add: pty_os_def)
  from send_input_pty_never_closes [OF h1 h2 h3]
  have "\<exists>os' self'.
        send_inputs [(all_ok, py ''prompt'', True), (broken_pipe, py ''more'', True),
                     (all_ok, py ''last'', False)] (pty_os, pty_started) = Inr (os', self')
        \<and> master_fd self' = Some 3 \<and> 3 \<in> open_fds os'"
    by blast
  with h1 h2 h3 show ?thesis by blast
qed

lemma send_input_closed:
  assumes "\<not> use_pty self" and "process self = Some p" and "stdin p = Some f" and "closed f"
  shows "send_input env text close (os, self)
     = Inr (os, self\<lparr>output_buffer := output_buffer self @ [send_error closed_file_error],
                     output_queue := output_queue self @ [send_error closed_file_error]\<rparr>)"
  using assms
  by (simp add: send_input_def file_write_def record_error_def send_error_def)

lemma send_inputs_closed:
  assumes "\<not> use_pty self" and "process self = Some p" and "stdin p = Some f" and "closed f"
  shows "send_inputs calls (os, self)
     = Inr (os, self\<lparr>output_buffer := output_buffer self
                         @ replicate (length calls) (send_error closed_file_error),
                     output_queue := output_queue self
                         @ replicate (length calls) (send_error closed_file_error)\<rparr>)"
  using assms
proof (induction calls arbitrary: self)
  case Nil
  then show ?case by simp
next
  case (Cons call calls)
  obtain env t close where call: "call = (env, t, close)" by (cases call)
  let ?self1 = "self\<lparr>output_buffer := output_buffer self @ [send_error closed_file_error],
                     output_queue := output_queue self @ [send_error closed_file_error]\<rparr>"
  have step: "send_input env t close (os, self) = Inr (os, ?self1)"
    using Cons.prems by (rule send_input_closed)
  have "send_inputs calls (os, ?self1)
     = Inr (os, ?self1\<lparr>output_buffer := output_buffer ?self1
                         @ replicate (length calls) (send_error closed_file_error),
                     output_queue := output_queue ?self1
                         @ replicate (length calls) (send_error closed_file_error)\<rparr>)"
    using Cons.prems by (intro Cons.IH) simp_all
  then show ?case
    by (simp add: call step replicate_append_same)
qed

lemma send_input_close:
  assumes "\<not> use_pty self" and "process self = Some p" and "stdin p = Some f"
    and "\<not> closed f" and "write_io env = Success" and "flush_io env = Success"
  shows "send_input env text True (os, self)
     = Inr (os, self\<lparr>process :=
          Some (p\<lparr>stdin := Some (f\<lparr>delivered := delivered f @ text @ [LF], closed := True\<rparr>)\<rparr>)\<rparr>)"
  using assms
  by (simp add: send_input_def file_write_def file_flush_def file_close_def set_stdin_def)

lemma send_input_returns: "\<exists>w'. send_input env text close w = Inr w'"
  by (cases w) (simp add: send_input_def split: option.splits sum.splits)

lemma send_input_write_fails:
  assumes "\<not> use_pty self" and "process self = Some p" and "stdin p = Some f"
    and "\<not> closed f" and "write_io env = Raises e"
  shows "send_input env text close (os, self) = Inr (os, record_error (send_error e) self)"
  using assms by (simp add: send_input_def file_write_def send_error_def)

lemma send_input_flush_fails:
  assumes "\<not> use_pty self" and "process self = Some p" and "stdin p = Some f"
    and "\<not> closed f" and "write_io env = Success" and "flush_io env = Raises e"
  shows "send_input env text close (os, self)
     = Inr (os, record_error (send_error e)
                  (set_stdin (f\<lparr>delivered := delivered f @ text @ [LF]\<rparr>) p self))"
  using assms by (simp add: send_input_def file_write_def file_flush_def send_error_def)

text \<open>
  C4. In a pipe session with a started process whose stdin is open, take a \<open>send_input\<close>
  with \<open>close=True\<close>. When its write and flush succeed, it returns normally, has sent the
  text and a line feed to the child, has closed stdin and has recorded nothing; every
  \<open>send_input\<close> after it, whatever its arguments and environment, returns normally as
  well, sends nothing, and appends the record
  \<open>Error sending input: I/O operation on closed file.\<close> to the buffer and to the queue.
  When the write raises, the call returns normally, records the error and leaves stdin
  as it was, open; when the flush raises, the text has been sent, the error is recorded
  and stdin is open as well: \<open>close()\<close> is reached only behind a write and a flush that
  succeeded. No \<open>send_input\<close>, in any state, lets an exception out.
\<close>

theorem send_input_close_then_fail:
  assumes "\<not> use_pty self" and "process self = Some p" and "stdin p = Some f"
    and "\<not> closed f"
  shows "(write_io env = Success \<and> flush_io env = Success \<longrightarrow>
       (\<exists>self1 p1 f1.
          send_input env text True (os, self) = Inr (os, self1)
        \<and> process self1 = Some p1 \<and> stdin p1 = Some f1
        \<and> delivered f1 = delivered f @ text @ [LF] \<and> closed f1
        \<and> output_queue self1 = output_queue self \<and> output_buffer self1 = output_buffer self
        \<and> (\<forall>calls. send_inputs calls (os, self1)
              = Inr (os, self1\<lparr>output_buffer := output_buffer self1
                                  @ replicate (length calls) (send_error closed_file_error),
                               output_queue := output_queue self1
                                  @ replicate (length calls) (send_error closed_file_error)\<rparr>))))
     \<and> (\<forall>e. write_io env = Raises e \<longrightarrow>
           send_input env text True (os, self) = Inr (os, record_error (send_error e) self))
     \<and> (\<forall>e. write_io env = Success \<and> flush_io env = Raises e \<longrightarrow>
           send_input env text True (os, self)
             = Inr (os, record_error (send_error e)
                          (set_stdin (f\<lparr>delivered := delivered f @ text @ [LF]\<rparr>) p self)))
     \<and> (\<exists>w'. send_input env' text' close' w = Inr w')"
proof (intro conjI impI allI)
  assume ok: "write_io env = Success \<and> flush_io env = Success"
  let ?f1 = "f\<lparr>delivered := delivered f @ text @ [LF], closed := True\<rparr>"
  let ?p1 = "p\<lparr>stdin := Some ?f1\<rparr>"
  let ?self1 = "self\<lparr>process := Some ?p1\<rparr>"
  have first: "send_input env text True (os, self) = Inr (os, ?self1)"
    using assms ok by (intro send_input_close) simp_all
  have later: "send_inputs calls (os, ?self1)
           = Inr (os, ?self1\<lparr>output_buffer := output_buffer ?self1
                               @ replicate (length calls) (send_error closed_file_error),
                            output_queue := output_queue ?self1
                               @ replicate (length calls) (send_error closed_file_error)\<rparr>)"
    for calls
    using assms(1) by (intro send_inputs_closed [where p = ?p1 and f = ?f1]) simp_all
  show "\<exists>self1 p1 f1.
          send_input env text True (os, self) = Inr (os, self1)
        \<and> process self1 = Some p1 \<and> stdin p1 = Some f1
        \<and> delivered f1 = delivered f @ text @ [LF] \<and> closed f1
        \<and> output_queue self1 = output_queue self \<and> output_buffer self1 = output_buffer self
        \<and> (\<forall>calls. send_inputs calls (os, self1)
              = Inr (os, self1\<lparr>output_buffer := output_buffer self1
                                  @ replicate (length calls) (send_error closed_file_error),
                               output_queue := output_queue self1
                                  @ replicate (length calls) (send_error closed_file_error)\<rparr>))"
    apply (rule exI [of _ ?self1], rule exI [of _ ?p1], rule exI [of _ ?f1])
    using first later by simp
next
  fix e assume "write_io env = Raises e"
  with assms show "send_input env text True (os, self)
      = Inr (os, record_error (send_error e) self)"
    by (intro send_input_write_fails)
next
  fix e assume "write_io env = Success \<and> flush_io env = Raises e"
  with assms show "send_input env text True (os, self)
             = Inr (os, record_error (send_error e)
                          (set_stdin (f\<lparr>delivered := delivered f @ text @ [LF]\<rparr>) p self))"
    by (intro send_input_flush_fails) simp_all
next
  show "\<exists>w'. send_input env' text' close' w = Inr w'"
    by (rule send_input_returns)
qed

theorem send_input_close_then_fail_witness:
  "\<not> use_pty pipe_started
   \<and> (\<exists>self1 p1 f1.
        send_input all_ok (py ''prompt'') True (os0, pipe_started) = Inr (os0, self1)
      \<and> process self1 = Some p1 \<and> stdin p1 = Some f1
      \<and> delivered f1 = py ''prompt'' @ [LF] \<and> closed f1
      \<and> send_inputs [(all_ok, py ''more'', False)] (os0, self1)
           = Inr (os0, self1\<lparr>output_buffer := [send_error closed_file_error],
                             output_queue := [send_error closed_file_error]\<rparr>))
   \<and> send_input broken_pipe (py ''prompt'') True (os0, pipe_started)
       = Inr (os0, pipe_after_broken_pipe)"
proof -
  let ?f = "\<lparr>closed = False, delivered = []\<rparr>"
  have h1: "\<not> use_pty pipe_started"
    by (simp add: pipe_started_def pipe_agent_def init_def)
  have h2: "process pipe_started = Some pipe_child"
    by (simp add: pipe_started_def)
  have h3: "stdin pipe_child = Some ?f" by (simp add: pipe_child_def)
  have h4: "\<not> closed ?f" by simp
  have h5: "write_io all_ok = Success \<and> flush_io all_ok = Success" by (simp add: all_ok_def)
  have h6: "write_io broken_pipe = Raises (py ''[Errno 32] Broken pipe'')"
    by (simp add: broken_pipe_def)
  have q: "output_queue pipe_started = []" "output_buffer pipe_started = []"
    by (simp_all add: pipe_started_def pipe_agent_def init_def)
  note both = send_input_close_then_fail [OF h1 h2 h3 h4, of _ "py ''prompt''" os0]
  from both [of all_ok] h5
  obtain self1 p1 f1 where
    first: "send_input all_ok (py ''prompt'') True (os0, pipe_started) = Inr (os0, self1)"
    and p1: "process self1 = Some p1" "stdin p1 = Some f1"
    and f1: "delivered f1 = delivered ?f @ py ''prompt'' @ [LF]" "closed f1"
    and same: "output_queue self1 = output_queue pipe_started"
      "output_buffer self1 = output_buffer pipe_started"
    and later: "\<And>calls. send_inputs calls (os0, self1)
           = Inr (os0, self1\<lparr>output_buffer := output_buffer self1
                               @ replicate (length calls) (send_error closed_file_error),
                            output_queue := output_queue self1
                               @ replicate (length calls) (send_error closed_file_error)\<rparr>)"
    by blast
  have second: "send_inputs [(all_ok, py ''more'', False)] (os0, self1)
           = Inr (os0, self1\<lparr>output_buffer := [send_error closed_file_error],
                             output_queue := [send_error closed_file_error]\<rparr>)"
    using later [of "[(all_ok, py ''more'', False)]"] same q by simp
  from both [of broken_pipe] h6
  have failed: "send_input broken_pipe (py ''prompt'') True (os0, pipe_started)
       = Inr (os0, pipe_after_broken_pipe)"
    by (simp add: pipe_after_broken_pipe_def)
  from h1 first p1 f1 second failed show ?thesis by auto
qed

text \<open>
  A started pipe session whose child has gone: the write of \<open>send_input(prompt, True)\<close>
  raises, the call records the error and returns with stdin still open, and in the
  session it leaves a later \<open>send_input\<close> whose write succeeds sends its text and records
  nothing.
\<close>

theorem send_input_close_counterexample:
  "send_input broken_pipe (py ''prompt'') True (os0, pipe_started)
       = Inr (os0, pipe_after_broken_pipe)
   \<and> process pipe_after_broken_pipe = Some pipe_child
   \<and> stdin pipe_child = Some \<lparr>closed = False, delivered = []\<rparr>
   \<and> output_queue pipe_after_broken_pipe = [send_error (py ''[Errno 32] Broken pipe'')]
   \<and> send_input all_ok (py ''more'') False (os0, pipe_after_broken_pipe)
       = Inr (os0, set_stdin \<lparr>closed = False, delivered = py ''more'' @ [LF]\<rparr> pipe_child
                     pipe_after_broken_pipe)
   \<and> output_queue (set_stdin \<lparr>closed = False, delivered = py ''more'' @ [LF]\<rparr> pipe_child
                     pipe_after_broken_pipe)
       = [send_error (py ''[Errno 32] Broken pipe'')]"
  by (simp add: send_input_def file_write_def file_flush_def broken_pipe_def all_ok_def
                pipe_after_broken_pipe_def pipe_started_def pipe_agent_def pipe_child_def
                init_def record_error_def send_error_def set_stdin_def)

text \<open>
  C10. In a pipe session whose process was never started, or whose process has no stdin
  handle, \<open>send_input\<close> returns normally with the session and the operating system exactly
  as they were: nothing is written and nothing is recorded.
\<close>

theorem send_input_not_started:
  assumes "\<not> use_pty self"
    and "process self = None \<or> (\<exists>p. process self = Some p \<and> stdin p = None)"
  shows "send_input env text close (os, self) = Inr (os, self)"
  using assms by (auto simp: send_input_def)

theorem send_input_not_started_witness:
  "\<not> use_pty pipe_agent \<and> process pipe_agent = None
   \<and> send_input all_ok (py ''prompt'') True (os0, pipe_agent) = Inr (os0, pipe_agent)
   \<and> send_input broken_pipe (py ''prompt'') False
        (os0, pipe_agent\<lparr>process := Some pty_child\<rparr>)
       = Inr (os0, pipe_agent\<lparr>process := Some pty_child\<rparr>)"
proof -
  have h1: "\<not> use_pty pipe_agent"
    by (simp add: pipe_agent_def init_def)
  have h2: "process pipe_agent = None"
    by (simp add: pipe_agent_def init_def)
  let ?a = "pipe_agent\<lparr>process := Some pty_child\<rparr>"
  have h3: "\<not> use_pty ?a" using h1 by simp
  have h4: "process ?a = None \<or> (\<exists>p. process ?a = Some p \<and> stdin p = None)"
    by (simp add: pty_child_def)
  from h2 have h5: "process pipe_agent = None
      \<or> (\<exists>p. process pipe_agent = Some p \<and> stdin p = None)" by simp
  show ?thesis
    using h1 h2 send_input_not_started [OF h1 h5, of all_ok "py ''prompt''" True os0]
      send_input_not_started [OF h3 h4, of broken_pipe "py ''prompt''" False os0]
    by simp
qed

subsection \<open>Stopping\<close>

lemma master_fd_None_same: "master_fd self = None \<Longrightarrow> self\<lparr>master_fd := None\<rparr> = self"
  by (cases self) simp

lemma running_False_same: "\<not> running self \<Longrightarrow> self\<lparr>running := False\<rparr> = self"
  by (cases self) simp

lemma close_master_result:
  "\<exists>os'. close_master (os, self) = (os', self\<lparr>master_fd := None\<rparr>)
     \<and> (\<forall>fd. master_fd self = Some fd \<longrightarrow> fd \<notin> open_fds os')
     \<and> (master_fd self = None \<longrightarrow> os' = os)"
  by (cases "master_fd self")
     (simp_all add: close_master_def os_close_def master_fd_None_same)

lemma close_master_closed:
  "master_fd self = None \<Longrightarrow> close_master (os, self) = (os, self)"
  by (simp add: close_master_def)

text \<open>
  What a \<open>stop()\<close> that returns has done to the process: the child has ended, or SIGKILL
  has been sent to a child that may be signalled.
\<close>

lemma stop_success_process:
  assumes "stop term_io (os, self) = (Success, os', self')" and "process self = Some p"
  shows "\<exists>p'. (os', self') = close_master (os, self\<lparr>running := False, process := Some p'\<rparr>)
     \<and> stdin p' = stdin p \<and> (status p' = Exited \<or> status p' = Killed \<and> may_signal p')"
proof (cases "terminate_wait term_io p")
  case (Inr p')
  then have "status p' = Exited" "stdin p' = stdin p"
    by (auto simp: terminate_wait_def split: if_splits io.splits)
  moreover from assms Inr
  have "(os', self') = close_master (os, self\<lparr>running := False, process := Some p'\<rparr>)"
    by (simp add: stop_def)
  ultimately show ?thesis by blast
next
  case (Inl e)
  show ?thesis
  proof (cases "kill p")
    case (Inl e')
    with assms \<open>terminate_wait term_io p = Inl e\<close> show ?thesis
      by (simp add: stop_def)
  next
    case (Inr p')
    then have "stdin p' = stdin p" "status p' = Exited \<or> status p' = Killed \<and> may_signal p'"
      by (auto simp: kill_def split: if_splits)
    moreover from assms Inr \<open>terminate_wait term_io p = Inl e\<close>
    have "(os', self') = close_master (os, self\<lparr>running := False, process := Some p'\<rparr>)"
      by (simp add: stop_def)
    ultimately show ?thesis by blast
  qed
qed

lemma stop_success_no_process:
  assumes "process self = None"
  shows "stop term_io (os, self) = (Success, close_master (os, self))"
  using assms by (simp add: stop_def)

text \<open>\<open>stop()\<close> on a session that is stopped.\<close>

lemma stop_stopped:
  assumes "master_fd self = None" and "process self = Some p" and "\<not> running self"
    and "status p = Exited \<or> status p = Killed \<and> may_signal p"
  shows "\<exists>p'. stop term_io (os, self) = (Success, os, self\<lparr>process := Some p'\<rparr>)
     \<and> stdin p' = stdin p \<and> status p' \<noteq> Alive"
proof -
  have run: "self\<lparr>running := False\<rparr> = self"
    using assms(3) by (rule running_False_same)
  have closed: "close_master (os, self\<lparr>process := Some q\<rparr>) = (os, self\<lparr>process := Some q\<rparr>)" for q
    using assms(1) by (simp add: close_master_closed)
  show ?thesis
  proof (cases "status p = Exited")
    case True
    then have "terminate_wait term_io p = Inr p"
      by (simp add: terminate_wait_def)
    then have "stop term_io (os, self) = (Success, os, self\<lparr>process := Some p\<rparr>)"
      using assms(2) run closed [of p] by (simp add: stop_def)
    with True show ?thesis by auto
  next
    case False
    with assms(4) have k: "status p = Killed" "may_signal p" by auto
    show ?thesis
    proof (cases term_io)
      case Success
      with k have "terminate_wait term_io p = Inr (p\<lparr>status := Exited\<rparr>)"
        by (simp add: terminate_wait_def)
      then have "stop term_io (os, self)
          = (Success, os, self\<lparr>process := Some (p\<lparr>status := Exited\<rparr>)\<rparr>)"
        using assms(2) run closed [of "p\<lparr>status := Exited\<rparr>"] by (simp add: stop_def)
      then show ?thesis by auto
    next
      case (Raises e)
      with k have "terminate_wait term_io p = Inl e" "kill p = Inr (p\<lparr>status := Killed\<rparr>)"
        by (simp_all add: terminate_wait_def kill_def)
      then have "stop term_io (os, self)
          = (Success, os, self\<lparr>process := Some (p\<lparr>status := Killed\<rparr>)\<rparr>)"
        using assms(2) run closed [of "p\<lparr>status := Killed\<rparr>"] by (simp add: stop_def)
      then show ?thesis by auto
    qed
  qed
qed

text \<open>
  The path on which \<open>stop()\<close> raises: the child is alive and may not be signalled, so
  \<open>terminate()\<close> raises and then \<open>kill()\<close> in the handler does; \<open>running\<close> has been set to
  false and the master descriptor is as it was.
\<close>

lemma stop_raises:
  assumes "process self = Some p" and "status p \<noteq> Exited" and "\<not> may_signal p"
  shows "stop term_io (os, self) = (Raises permission_error, os, self\<lparr>running := False\<rparr>)"
  using assms by (simp add: stop_def terminate_wait_def kill_def)

text \<open>
  C7. Take a session on which \<open>stop()\<close> has returned. Its master descriptor is cleared,
  the descriptor it named is closed, and if it had a process, \<open>running\<close> is false and the
  process is not alive. A second \<open>stop()\<close>, whatever the outcome of terminating, returns
  normally as well and changes nothing of this: the operating system state is the same,
  and the session is the same up to the recorded status of the process, which is still
  not alive.
\<close>

theorem stop_idempotent:
  assumes "stop io1 (os, self) = (Success, os1, self1)"
  shows "\<exists>self2.
       stop io2 (os1, self1) = (Success, os1, self2)
     \<and> master_fd self1 = None \<and> master_fd self2 = None
     \<and> (\<forall>fd. master_fd self = Some fd \<longrightarrow> fd \<notin> open_fds os1)
     \<and> (process self \<noteq> None \<longrightarrow> \<not> running self1 \<and> \<not> running self2)
     \<and> self2\<lparr>process := process self1\<rparr> = self1
     \<and> (\<forall>p1. process self1 = Some p1 \<longrightarrow>
           status p1 \<noteq> Alive
           \<and> (\<exists>p2. process self2 = Some p2 \<and> status p2 \<noteq> Alive \<and> stdin p2 = stdin p1))"
proof (cases "process self")
  case None
  from assms None have eq: "(os1, self1) = close_master (os, self)"
    by (simp add: stop_success_no_process)
  from close_master_result [of os self] eq
  have s1: "self1 = self\<lparr>master_fd := None\<rparr>"
    and closed: "\<forall>fd. master_fd self = Some fd \<longrightarrow> fd \<notin> open_fds os1"
    by auto
  from s1 None have p1: "process self1 = None" and fd1: "master_fd self1 = None"
    by simp_all
  have second: "stop io2 (os1, self1) = (Success, os1, self1)"
    using p1 fd1 by (simp add: stop_success_no_process close_master_closed)
  show ?thesis
    apply (rule exI [of _ self1])
    using second fd1 closed None p1 by simp
next
  case (Some p)
  from stop_success_process [OF assms Some]
  obtain p' where eq: "(os1, self1)
        = close_master (os, self\<lparr>running := False, process := Some p'\<rparr>)"
    and p': "stdin p' = stdin p" "status p' = Exited \<or> status p' = Killed \<and> may_signal p'"
    by (elim exE conjE)
  from close_master_result [of os "self\<lparr>running := False, process := Some p'\<rparr>"] eq
  have s1: "self1 = self\<lparr>running := False, process := Some p', master_fd := None\<rparr>"
    and closed: "\<forall>fd. master_fd self = Some fd \<longrightarrow> fd \<notin> open_fds os1"
    by auto
  from s1 have f1: "master_fd self1 = None" "process self1 = Some p'" "\<not> running self1"
    by simp_all
  from stop_stopped [OF f1 p'(2), of io2 os1]
  obtain p2 where second: "stop io2 (os1, self1) = (Success, os1, self1\<lparr>process := Some p2\<rparr>)"
    and p2: "stdin p2 = stdin p'" "status p2 \<noteq> Alive"
    by (elim exE conjE)
  have alive: "status p' \<noteq> Alive" using p'(2) by auto
  have same: "(self1\<lparr>process := Some p2\<rparr>)\<lparr>process := process self1\<rparr> = self1"
    by simp
  show ?thesis
    apply (rule exI [of _ "self1\<lparr>process := Some p2\<rparr>"])
    using second f1 closed same alive p2 by simp
qed

theorem stop_idempotent_witness:
  "stop (Raises (py ''timed out after 5 seconds'')) (pty_os, pty_started)
       = (Success, os0, pty_started\<lparr>running := False,
                                    process := Some (pty_child\<lparr>status := Killed\<rparr>),
                                    master_fd := None\<rparr>)
   \<and> process pty_started \<noteq> None \<and> master_fd pty_started = Some 3 \<and> 3 \<in> open_fds pty_os
   \<and> 3 \<notin> open_fds os0
   \<and> (\<exists>self2.
        stop Success (os0, pty_started\<lparr>running := False,
                                       process := Some (pty_child\<lparr>status := Killed\<rparr>),
                                       master_fd := None\<rparr>) = (Success, os0, self2)
      \<and> master_fd self2 = None \<and> \<not> running self2)"
proof -
  let ?self1 = "pty_started\<lparr>running := False,
                            process := Some (pty_child\<lparr>status := Killed\<rparr>),
                            master_fd := None\<rparr>"
  have first: "stop (Raises (py ''timed out after 5 seconds'')) (pty_os, pty_started)
       = (Success, os0, ?self1)"
    by (auto simp: stop_def terminate_wait_def kill_def close_master_def os_close_def
                   pty_started_def pty_child_def pty_os_def os0_def)
  have h1: "process pty_started \<noteq> None" by (simp add: pty_started_def)
  have h2: "master_fd pty_started = Some 3" by (simp add: pty_started_def)
  have h3: "3 \<in> open_fds pty_os" by (simp add: pty_os_def)
  from stop_idempotent [OF first, of Success]
  obtain self2 where second: "stop Success (os0, ?self1) = (Success, os0, self2)"
    and fd2: "master_fd self2 = None"
    and closed: "\<forall>fd. master_fd pty_started = Some fd \<longrightarrow> fd \<notin> open_fds os0"
    and run: "process pty_started \<noteq> None \<longrightarrow> \<not> running ?self1 \<and> \<not> running self2"
    by (elim exE conjE)
  from closed h2 have c: "3 \<notin> open_fds os0" by simp
  from run h1 have r: "\<not> running self2" by simp
  have "\<exists>self2. stop Success (os0, ?self1) = (Success, os0, self2)
      \<and> master_fd self2 = None \<and> \<not> running self2"
    apply (rule exI [of _ self2])
    using second fd2 r by simp
  with first h1 h2 h3 c show ?thesis by simp
qed

section \<open>Properties of the coordination file\<close>

subsection \<open>Reading with universal newlines\<close>

lemma universal_newlines_char:
  "c \<noteq> CR \<Longrightarrow> universal_newlines (c # s) = c # universal_newlines s"
  by (cases s) simp_all

lemma universal_newlines_no_cr: "CR \<notin> set s \<Longrightarrow> universal_newlines s = s"
  by (induction s rule: universal_newlines.induct) auto

lemma universal_newlines_line:
  "\<exists>pre. universal_newlines (old @ LF # rest) = pre @ LF # universal_newlines rest"
proof (induction old rule: universal_newlines.induct)
  case 1
  have "universal_newlines (LF # rest) = LF # universal_newlines rest"
    by (rule universal_newlines_char) (simp add: LF_def CR_def)
  then show ?case by simp
next
  case (2 c)
  have lf: "universal_newlines (LF # rest) = LF # universal_newlines rest"
    by (rule universal_newlines_char) (simp add: LF_def CR_def)
  show ?case
  proof (cases "c = CR")
    case True
    then have "universal_newlines ([c] @ LF # rest) = [] @ LF # universal_newlines rest"
      by simp
    then show ?thesis by blast
  next
    case False
    then have "universal_newlines ([c] @ LF # rest) = [c] @ LF # universal_newlines rest"
      by (simp add: lf)
    then show ?thesis by blast
  qed
next
  case (3 c d cs)
  show ?case
  proof (cases "c = CR \<and> d = LF")
    case True
    with 3(1) obtain pre where
      "universal_newlines (cs @ LF # rest) = pre @ LF # universal_newlines rest"
      by blast
    with True have "universal_newlines ((c # d # cs) @ LF # rest)
        = (LF # pre) @ LF # universal_newlines rest"
      by simp
    then show ?thesis by blast
  next
    case False
    show ?thesis
    proof (cases "c = CR")
      case True
      with False 3(2) obtain pre where
        "universal_newlines ((d # cs) @ LF # rest) = pre @ LF # universal_newlines rest"
        by blast
      with True False have "universal_newlines ((c # d # cs) @ LF # rest)
          = (LF # pre) @ LF # universal_newlines rest"
        by simp
      then show ?thesis by blast
    next
      case c: False
      with False 3(3) obtain pre where
        "universal_newlines ((d # cs) @ LF # rest) = pre @ LF # universal_newlines rest"
        by blast
      with c have "universal_newlines ((c # d # cs) @ LF # rest)
          = (c # pre) @ LF # universal_newlines rest"
        by simp
      then show ?thesis by blast
    qed
  qed
qed

lemma universal_newlines_prefix:
  "prefix (universal_newlines xs) (universal_newlines (xs @ ys))"
proof (induction xs rule: universal_newlines.induct)
  case 1
  show ?case by simp
next
  case (2 c)
  show ?case by (cases ys) simp_all
next
  case (3 c d cs)
  then show ?case by simp
qed

lemma read_chat_content: "read_chat fs = universal_newlines (file_content (chat_file fs))"
  by (cases "chat_file fs") (simp_all add: read_chat_def read_text_def file_content_def)

subsection \<open>Appending and reading back\<close>

lemma append_to_chat_written:
  "append_to_chat Written self message fs
     = (Success, fs\<lparr>chat_file :=
          Some (file_content (chat_file fs) @ chat_line (agent_name self) message)\<rparr>)"
  by (simp add: append_to_chat_def append_to_file_def)

lemma two_appends:
  "\<exists>fs1 fs2.
       append_to_chat Written x hello fs = (Success, fs1)
     \<and> append_to_chat Written y world fs1 = (Success, fs2)
     \<and> read_chat fs2 = universal_newlines
         (file_content (chat_file fs) @ chat_line (agent_name x) hello
            @ chat_line (agent_name y) world)"
  by (simp add: append_to_chat_written read_chat_content file_content_def)

lemma chat_line_LF: "chat_line speaker message = LF # py ''['' @ speaker @ py '']: '' @ message @ [LF]"
  by (simp add: chat_line_def)

lemma chat_line_no_cr:
  "CR \<notin> set (speaker @ message) \<Longrightarrow> CR \<notin> set (chat_line speaker message)"
  by (auto simp: chat_line_def py_def CR_def LF_def)

lemma read_two_lines:
  assumes "CR \<notin> set (nx @ hello @ ny @ world)"
  shows "\<exists>pre. universal_newlines (old @ chat_line nx hello @ chat_line ny world)
     = pre @ chat_line nx hello @ chat_line ny world"
proof -
  let ?rest = "py ''['' @ nx @ py '']: '' @ hello @ [LF] @ chat_line ny world"
  have whole: "chat_line nx hello @ chat_line ny world = LF # ?rest"
    by (simp add: chat_line_LF)
  have "CR \<notin> set (chat_line nx hello @ chat_line ny world)"
    using assms chat_line_no_cr [of nx hello] chat_line_no_cr [of ny world] by simp
  then have "CR \<notin> set ?rest" unfolding whole by simp
  then have rest: "universal_newlines ?rest = ?rest"
    by (rule universal_newlines_no_cr)
  from universal_newlines_line [of old ?rest]
  obtain pre where "universal_newlines (old @ LF # ?rest) = pre @ LF # universal_newlines ?rest"
    by blast
  then have "universal_newlines (old @ chat_line nx hello @ chat_line ny world)
      = pre @ chat_line nx hello @ chat_line ny world"
    unfolding whole rest .
  then show ?thesis by blast
qed

text \<open>
  C5. Whatever the coordination file holds before, when the mock agent \<open>X\<close> appends
  \<open>hello\<close>, the mock agent \<open>Y\<close> then appends \<open>world\<close> and both writes succeed, the content
  read afterwards ends with \<open>"\n[X]: hello\n"\<close> followed by \<open>"\n[Y]: world\n"\<close>. The same
  holds for any two names and messages without a carriage return: the file holds the
  earlier content and the two lines, each a line feed, the name in brackets, a colon
  and a space, the message and a line feed; the text read ends with the two lines, and
  when the earlier content has no carriage return either it is that content followed
  by the two lines.
\<close>

theorem chat_round_trip:
  "(\<exists>fs1 fs2 pre.
       append_to_chat Written (mock_agent_init (py ''X'')) (py ''hello'') fs = (Success, fs1)
     \<and> append_to_chat Written (mock_agent_init (py ''Y'')) (py ''world'') fs1 = (Success, fs2)
     \<and> read_chat fs2
         = pre @ ([LF] @ py ''[X]: hello'' @ [LF]) @ ([LF] @ py ''[Y]: world'' @ [LF]))
   \<and> (\<exists>fs1 fs2.
       append_to_chat Written x hello fs = (Success, fs1)
     \<and> append_to_chat Written y world fs1 = (Success, fs2)
     \<and> chat_file fs2
         = Some (file_content (chat_file fs) @ chat_line (agent_name x) hello
                   @ chat_line (agent_name y) world)
     \<and> (CR \<notin> set (agent_name x @ hello @ agent_name y @ world) \<longrightarrow>
          (\<exists>pre. read_chat fs2
             = pre @ chat_line (agent_name x) hello @ chat_line (agent_name y) world))
     \<and> (CR \<notin> set (file_content (chat_file fs) @ agent_name x @ hello @ agent_name y @ world) \<longrightarrow>
          read_chat fs2
            = file_content (chat_file fs) @ chat_line (agent_name x) hello
                @ chat_line (agent_name y) world))
   \<and> chat_line speaker message = [LF] @ py ''['' @ speaker @ py '']: '' @ message @ [LF]"
proof (intro conjI)
  let ?X = "mock_agent_init (py ''X'')" and ?Y = "mock_agent_init (py ''Y'')"
  let ?old = "file_content (chat_file fs)"
  from two_appends [of ?X "py ''hello''" fs ?Y "py ''world''"]
  obtain fs1 fs2 where a1: "append_to_chat Written ?X (py ''hello'') fs = (Success, fs1)"
    and a2: "append_to_chat Written ?Y (py ''world'') fs1 = (Success, fs2)"
    and rd: "read_chat fs2 = universal_newlines
         (?old @ chat_line (agent_name ?X) (py ''hello'') @ chat_line (agent_name ?Y) (py ''world''))"
    by (elim exE conjE)
  have names: "agent_name ?X = py ''X''" "agent_name ?Y = py ''Y''"
    by (simp_all add: mock_agent_init_def)
  have nocr: "CR \<notin> set (py ''X'' @ py ''hello'' @ py ''Y'' @ py ''world'')"
    by (simp add: py_def CR_def)
  from read_two_lines [OF nocr, of ?old] rd names
  obtain pre where "read_chat fs2
      = pre @ chat_line (py ''X'') (py ''hello'') @ chat_line (py ''Y'') (py ''world'')"
    by auto
  then have "read_chat fs2
         = pre @ ([LF] @ py ''[X]: hello'' @ [LF]) @ ([LF] @ py ''[Y]: world'' @ [LF])"
    by (simp add: chat_line_def py_def)
  with a1 a2 show "\<exists>fs1 fs2 pre.
       append_to_chat Written ?X (py ''hello'') fs = (Success, fs1)
     \<and> append_to_chat Written ?Y (py ''world'') fs1 = (Success, fs2)
     \<and> read_chat fs2
         = pre @ ([LF] @ py ''[X]: hello'' @ [LF]) @ ([LF] @ py ''[Y]: world'' @ [LF])"
    by blast
next
  let ?old = "file_content (chat_file fs)"
  let ?lines = "chat_line (agent_name x) hello @ chat_line (agent_name y) world"
  let ?fs1 = "fs\<lparr>chat_file := Some (?old @ chat_line (agent_name x) hello)\<rparr>"
  let ?fs2 = "fs\<lparr>chat_file := Some (?old @ ?lines)\<rparr>"
  have a1: "append_to_chat Written x hello fs = (Success, ?fs1)"
    by (rule append_to_chat_written)
  have a2: "append_to_chat Written y world ?fs1 = (Success, ?fs2)"
    by (simp add: append_to_chat_written file_content_def)
  have raw: "chat_file ?fs2 = Some (?old @ ?lines)" by simp
  have rd: "read_chat ?fs2 = universal_newlines (?old @ ?lines)"
    by (simp add: read_chat_content file_content_def)
  have ends: "\<exists>pre. read_chat ?fs2 = pre @ ?lines"
    if "CR \<notin> set (agent_name x @ hello @ agent_name y @ world)"
    using read_two_lines [OF that, of ?old] rd by simp
  have whole: "read_chat ?fs2 = ?old @ ?lines"
    if "CR \<notin> set (?old @ agent_name x @ hello @ agent_name y @ world)"
  proof -
    from that have "CR \<notin> set (?old @ ?lines)"
      using chat_line_no_cr [of "agent_name x" hello] chat_line_no_cr [of "agent_name y" world]
      by simp
    then show ?thesis unfolding rd by (rule universal_newlines_no_cr)
  qed
  show "\<exists>fs1 fs2.
       append_to_chat Written x hello fs = (Success, fs1)
     \<and> append_to_chat Written y world fs1 = (Success, fs2)
     \<and> chat_file fs2 = Some (?old @ ?lines)
     \<and> (CR \<notin> set (agent_name x @ hello @ agent_name y @ world) \<longrightarrow>
          (\<exists>pre. read_chat fs2 = pre @ ?lines))
     \<and> (CR \<notin> set (?old @ agent_name x @ hello @ agent_name y @ world) \<longrightarrow>
          read_chat fs2 = ?old @ ?lines)"
    apply (rule exI [of _ ?fs1], rule exI [of _ ?fs2])
    apply (intro conjI impI)
        apply (rule a1)
       apply (rule a2)
      apply (rule raw)
     apply (erule ends)
    apply (erule whole)
    done
next
  show "chat_line speaker message = [LF] @ py ''['' @ speaker @ py '']: '' @ message @ [LF]"
    by (simp add: chat_line_def)
qed

theorem chat_round_trip_witness:
  "\<exists>fs1 fs2.
       append_to_chat Written (mock_agent_init (py ''X'')) (py ''hello'')
          \<lparr>chat_file = Some (py ''abc'' @ [CR]), plan_file = None\<rparr> = (Success, fs1)
     \<and> append_to_chat Written (mock_agent_init (py ''Y'')) (py ''world'') fs1 = (Success, fs2)
     \<and> read_chat fs2
         = py ''abc'' @ ([LF] @ py ''[X]: hello'' @ [LF]) @ ([LF] @ py ''[Y]: world'' @ [LF])"
proof -
  let ?fs = "\<lparr>chat_file = Some (py ''abc'' @ [CR]), plan_file = None\<rparr>"
  from chat_round_trip [of ?fs, THEN conjunct1]
  obtain fs1 fs2 pre where
    a1: "append_to_chat Written (mock_agent_init (py ''X'')) (py ''hello'') ?fs = (Success, fs1)"
    and a2: "append_to_chat Written (mock_agent_init (py ''Y'')) (py ''world'') fs1 = (Success, fs2)"
    and rd: "read_chat fs2
         = pre @ ([LF] @ py ''[X]: hello'' @ [LF]) @ ([LF] @ py ''[Y]: world'' @ [LF])"
    by (elim exE conjE)
  from a1 have fs1: "fs1 = ?fs\<lparr>chat_file := Some (file_content (chat_file ?fs)
        @ chat_line (agent_name (mock_agent_init (py ''X''))) (py ''hello''))\<rparr>"
    by (simp add: append_to_chat_written)
  from a2 have fs2: "fs2 = fs1\<lparr>chat_file := Some (file_content (chat_file fs1)
        @ chat_line (agent_name (mock_agent_init (py ''Y''))) (py ''world''))\<rparr>"
    by (simp add: append_to_chat_written)
  have "read_chat fs2
         = py ''abc'' @ ([LF] @ py ''[X]: hello'' @ [LF]) @ ([LF] @ py ''[Y]: world'' @ [LF])"
    unfolding fs2 fs1
    by (simp add: read_chat_def read_text_def file_content_def chat_line_def
                  mock_agent_init_def py_def CR_def LF_def)
  with a1 a2 show ?thesis by blast
qed

subsection \<open>The file only grows\<close>

lemma append_to_file_prefix:
  "append_to_file wr data f = (outcome, f') \<Longrightarrow> prefix (file_content f) (file_content f')"
  by (cases wr) (auto simp: append_to_file_def file_content_def)

lemma send_user_message_prefix:
  "send_user_message timestamp wr (fs, app) = Inr (fs', app') \<Longrightarrow>
     prefix (file_content (chat_file fs)) (file_content (chat_file fs'))"
  by (auto simp: send_user_message_def Let_def
           split: option.splits if_splits prod.splits io.splits
           dest: append_to_file_prefix)

lemma append_to_chat_prefix:
  "append_to_chat wr self message fs = (outcome, fs') \<Longrightarrow>
     prefix (file_content (chat_file fs)) (file_content (chat_file fs'))"
  by (auto simp: append_to_chat_def split: prod.splits dest: append_to_file_prefix)

lemma later_write_prefix:
  "prefix (file_content (chat_file (fst w))) (file_content (chat_file (fst (later_write x w))))"
proof (cases w)
  case (Pair fs app)
  show ?thesis
  proof (cases x)
    case (UserMessage typed timestamp wr)
    then show ?thesis
      using Pair
      by (auto split: sum.splits dest: send_user_message_prefix)
  next
    case (AgentAppend wr agent message)
    then show ?thesis
      using Pair
      by (auto split: prod.splits dest: append_to_chat_prefix)
  qed
qed

lemma later_writes_prefix:
  "prefix (file_content (chat_file (fst w))) (file_content (chat_file (fst (later_writes xs w))))"
proof (induction xs arbitrary: w)
  case Nil
  show ?case by simp
next
  case (Cons x xs)
  have "prefix (file_content (chat_file (fst w)))
          (file_content (chat_file (fst (later_write x w))))"
    by (rule later_write_prefix)
  also have "prefix \<dots> (file_content (chat_file (fst (later_writes xs (later_write x w)))))"
    by (rule Cons.IH)
  finally show ?case by simp
qed

lemma later_writes_read_prefix:
  "prefix (read_chat (fst w)) (read_chat (fst (later_writes xs w)))"
proof -
  from later_writes_prefix [of w xs]
  obtain more where "file_content (chat_file (fst (later_writes xs w)))
      = file_content (chat_file (fst w)) @ more"
    by (auto simp: prefix_def)
  then show ?thesis
    by (simp add: read_chat_content universal_newlines_prefix)
qed

lemma later_writes_append: "later_writes (xs @ ys) w = later_writes ys (later_writes xs w)"
  by (induction xs arbitrary: w) simp_all

lemma setup_workspace_chat:
  "mkdir_io env = Success \<Longrightarrow> chat_io env = Written \<Longrightarrow>
     chat_file (snd (setup_workspace env fs)) = Some []"
  by (cases "plan_io env") (simp_all add: setup_workspace_def write_text_def)

text \<open>
  C6. When \<open>setup_workspace\<close> gets as far as writing the chat file, the file is empty
  afterwards. From then on, whatever the user submits and whatever the mock agents
  post, with any outcomes of the writes, the content after some of these writes is a
  prefix of the content after any further ones, in the file and as \<open>read_chat\<close> returns
  it: \<open>send_user_message\<close> and \<open>append_to_chat\<close> only append. Truncation is in
  \<open>setup_workspace\<close> alone.
\<close>

theorem chat_file_append_only:
  assumes "mkdir_io env = Success" and "chat_io env = Written"
  shows "chat_file (snd (setup_workspace env fs)) = Some []
     \<and> (\<forall>app ws more.
          prefix (read_chat (fst (later_writes ws (snd (setup_workspace env fs), app))))
                 (read_chat (fst (later_writes (ws @ more)
                                   (snd (setup_workspace env fs), app)))))
     \<and> (\<forall>app ws more.
          prefix (file_content (chat_file
                    (fst (later_writes ws (snd (setup_workspace env fs), app)))))
                 (file_content (chat_file
                    (fst (later_writes (ws @ more) (snd (setup_workspace env fs), app))))))"
  using assms
  by (simp add: setup_workspace_chat later_writes_append later_writes_prefix
                later_writes_read_prefix)

theorem chat_file_append_only_witness:
  "mkdir_io setup_ok = Success \<and> chat_io setup_ok = Written
   \<and> chat_file files0 = Some (py ''left over'')
   \<and> chat_file (snd (setup_workspace setup_ok files0)) = Some []
   \<and> read_chat (fst (later_writes
          [UserMessage (py '' hi '') (py ''12:00:00'') Written]
          (snd (setup_workspace setup_ok files0), app0)))
       = [LF] @ py ''[User @ 12:00:00]: hi'' @ [LF]
   \<and> prefix ([LF] @ py ''[User @ 12:00:00]: hi'' @ [LF])
        (read_chat (fst (later_writes
          ([UserMessage (py '' hi '') (py ''12:00:00'') Written]
           @ [AgentAppend Written (mock_agent_init (py ''X'')) (py ''hello'')])
          (snd (setup_workspace setup_ok files0), app0))))"
proof -
  have h1: "mkdir_io setup_ok = Success" by (simp add: setup_ok_def)
  have h2: "chat_io setup_ok = Written" by (simp add: setup_ok_def)
  have old: "chat_file files0 = Some (py ''left over'')" by (simp add: files0_def)
  from chat_file_append_only [OF h1 h2, of files0]
  have empty: "chat_file (snd (setup_workspace setup_ok files0)) = Some []"
    and grow: "prefix
        (read_chat (fst (later_writes [UserMessage (py '' hi '') (py ''12:00:00'') Written]
           (snd (setup_workspace setup_ok files0), app0))))
        (read_chat (fst (later_writes
          ([UserMessage (py '' hi '') (py ''12:00:00'') Written]
           @ [AgentAppend Written (mock_agent_init (py ''X'')) (py ''hello'')])
          (snd (setup_workspace setup_ok files0), app0))))"
    by blast+
  have fs0: "snd (setup_workspace setup_ok files0) = \<lparr>chat_file = Some [], plan_file = Some []\<rparr>"
    by (simp add: setup_workspace_def setup_ok_def files0_def write_text_def)
  have one: "read_chat (fst (later_writes
          [UserMessage (py '' hi '') (py ''12:00:00'') Written]
          (snd (setup_workspace setup_ok files0), app0)))
       = [LF] @ py ''[User @ 12:00:00]: hi'' @ [LF]"
    unfolding fs0
    by (simp add: app0_def send_user_message_def strip_def isspace_def py_def
                  append_to_file_def file_content_def user_line_def read_chat_def
                  read_text_def on_chat_modified_def CR_def LF_def)
  from h1 h2 old empty one grow show ?thesis by simp
qed

end
